theory Spec2Isabelle
  imports Complex_Main "HOL-Library.Sublist"
begin

section \<open>Data model\<close>

text \<open>
  Account names and currencies are Python strings. A \<open>datetime.date\<close> is represented by
  its proleptic Gregorian ordinal, so comparison of dates is comparison of integers and
  adding one day adds one. A finite \<open>Decimal\<close> is represented by the rational number
  it denotes; the arithmetic of the \<open>decimal\<close> module on these numbers is defined in
  the section on decimal arithmetic below.
\<close>

type_synonym account = string
type_synonym currency = string
type_synonym date = int

text \<open>
  The exceptions: \<open>Overflow\<close> and \<open>InvalidOperation\<close> are the signals of the
  \<open>decimal\<close> module that the default context traps, \<open>OverflowError\<close> is raised by
  date arithmetic.
\<close>

datatype error =
  NameError | AssertionError | KeyError | OverflowError | Overflow | InvalidOperation

text \<open>\<open>beancount.core.amount.Amount\<close>: a number and its currency.\<close>

record Amount =
  number :: rat
  currency :: currency

text \<open>
  A posting: the account it books to and the units booked. Its cost and price
  annotations are read by \<open>get_weight\<close> alone, a function of the library below.
\<close>

record Posting =
  account :: account
  units :: Amount

record Transaction =
  txn_date :: date
  postings :: "Posting list"

text \<open>
  A ledger entry is a transaction or some other dated directive (a price, an open, a
  balance assertion, ...); \<open>filter_txns\<close> keeps the transactions.
\<close>

datatype directive = Txn Transaction | Other date

fun entry_date :: "directive \<Rightarrow> date" where
  "entry_date (Txn t) = txn_date t"
| "entry_date (Other d) = d"

fun filter_txns :: "directive list \<Rightarrow> Transaction list" where
  "filter_txns [] = []"
| "filter_txns (Txn t # es) = t # filter_txns es"
| "filter_txns (Other d # es) = filter_txns es"

text \<open>
  The dataclass \<open>Cashflow\<close>. The date of a boundary cashflow is the window bound it is
  built from, which may be \<open>None\<close>; the two account sets start empty and \<open>entry\<close>
  defaults to \<open>None\<close>.
\<close>

record Cashflow =
  cf_date :: "date option"
  cf_amount :: rat
  cf_kind :: string
  inflow_accounts :: "account set"
  outflow_accounts :: "account set"
  cf_entry :: "Transaction option"

section \<open>Python dictionaries\<close>

text \<open>
  A \<open>dict\<close> whose items are iterated is an association list with distinct keys in
  insertion order: assigning to a present key keeps its position, assigning to a new key
  appends it.
\<close>

fun dict_get :: "('k \<times> 'v) list \<Rightarrow> 'k \<Rightarrow> 'v option" where
  "dict_get [] k = None"
| "dict_get ((k', v) # d) k = (if k' = k then Some v else dict_get d k)"

fun dict_set :: "'k \<Rightarrow> 'v \<Rightarrow> ('k \<times> 'v) list \<Rightarrow> ('k \<times> 'v) list" where
  "dict_set k v [] = [(k, v)]"
| "dict_set k v ((k', v') # d) = (if k' = k then (k', v) # d else (k', v') # dict_set k v d)"

text \<open>\<open>dict(pairs)\<close>: later pairs overwrite earlier ones with the same key.\<close>

fun dict_of :: "('k \<times> 'v) list \<Rightarrow> ('k \<times> 'v) list \<Rightarrow> ('k \<times> 'v) list" where
  "dict_of [] d = d"
| "dict_of ((k, v) # kvs) d = dict_of kvs (dict_set k v d)"

section \<open>\<open>get_number\<close>\<close>

text \<open>
  The names bound when the body of \<open>get_number\<close> runs: its two parameters and the
  names the module binds at top level (imports, the dataclass and the five functions).
  None of \<open>converted\<close>, \<open>entry\<close>, \<open>posting\<close> is a Python builtin either.
\<close>

definition get_number_locals :: "string list" where
  "get_number_locals = [''amount'', ''currency'']"

definition module_globals :: "string list" where
  "module_globals =
    [''datetime'', ''logging'', ''re'', ''dataclasses'', ''collections'',
     ''relativedelta'', ''Decimal'', ''List'', ''Optional'', ''Set'', ''beancount'',
     ''Account'', ''Amount'', ''Currency'', ''Transaction'', ''PriceMap'', ''Cashflow'',
     ''get_asset_account'', ''get_number'', ''get_market_values_by_asset_account'',
     ''get_cashflows_by_asset_account'', ''get_cashflows'']"

text \<open>
  Evaluating the names of an expression in order: the first unbound one raises
  \<open>NameError\<close>.
\<close>

fun eval_names :: "string list \<Rightarrow> string list \<Rightarrow> error + unit" where
  "eval_names scope [] = Inr ()"
| "eval_names scope (n # ns) =
     (if n \<in> set scope then eval_names scope ns else Inl NameError)"

text \<open>
  The \<open>raise\<close> statement first builds the message, whose two f-strings read
  \<open>converted\<close>, then \<open>entry\<close>, \<open>posting\<close> and \<open>currency\<close>; only when that succeeds
  is the \<open>AssertionError\<close> constructed and raised.
\<close>

definition get_number :: "Amount \<Rightarrow> currency \<Rightarrow> error + rat" where
  "get_number amount cur =
     (if currency amount \<noteq> cur then
        (case eval_names (get_number_locals @ module_globals)
                [''converted'', ''entry'', ''posting'', ''currency''] of
           Inl e \<Rightarrow> Inl e
         | Inr _ \<Rightarrow> Inl AssertionError)
      else Inr (number amount))"

section \<open>\<open>get_asset_account\<close>\<close>

text \<open>
  \<open>pattern.subn(replacement, account)\<close> belongs to the regular expression engine and is
  a parameter \<open>subn\<close> here: it takes the pattern, the replacement and the subject and
  returns the rewritten subject with the number of matches replaced. The rule map is a
  dictionary iterated in insertion order.
\<close>

type_synonym subn = "string \<Rightarrow> string \<Rightarrow> string \<Rightarrow> string \<times> nat"

fun get_asset_account :: "subn \<Rightarrow> account \<Rightarrow> (string \<times> string) list \<Rightarrow> account option" where
  "get_asset_account subn acct [] = None"
| "get_asset_account subn acct ((pattern, replacement) # rules) =
     (case subn pattern replacement acct of
        (asset_account, num_matches) \<Rightarrow>
          if num_matches > 0 then Some asset_account
          else get_asset_account subn acct rules)"

text \<open>
  The engine on a pattern without metacharacters and a replacement without
  backslashes: \<open>subn\<close> scans the subject from the left, replaces every non-overlapping
  occurrence of the pattern and counts them. (The empty pattern matches before every
  character and at the end.)
\<close>

fun subn_scan :: "string \<Rightarrow> string \<Rightarrow> nat \<Rightarrow> string \<Rightarrow> string \<times> nat" where
  "subn_scan pat repl skip [] = ([], 0)"
| "subn_scan pat repl skip (c # cs) =
     (if skip > 0 then subn_scan pat repl (skip - 1) cs
      else if prefix pat (c # cs) then
        (case subn_scan pat repl (length pat - 1) cs of (r, n) \<Rightarrow> (repl @ r, Suc n))
      else
        (case subn_scan pat repl 0 cs of (r, n) \<Rightarrow> (c # r, n)))"

definition literal_subn :: subn where
  "literal_subn pat repl s =
     (if pat = [] then (repl @ concat (map (\<lambda>c. c # repl) s), Suc (length s))
      else subn_scan pat repl 0 s)"

section \<open>Account hierarchy\<close>

text \<open>
  \<open>beancount.core.account.parent\<close> drops the last \<open>:\<close>-separated component of a
  name, and \<open>parents\<close> yields the name itself and then each enclosing name, stopping
  at the empty name.
\<close>

definition parent :: "account \<Rightarrow> account" where
  "parent name = rev (tl (dropWhile (\<lambda>c. c \<noteq> CHR '':'') (rev name)))"

function parents :: "account \<Rightarrow> account list" where
  "parents name = (if name = [] then [] else name # parents (parent name))"
  by pat_completeness auto
termination
proof (relation "measure length")
  show "wf (measure length)" by simp
next
  fix name :: account
  assume ne: "name \<noteq> []"
  have "length (dropWhile (\<lambda>c. c \<noteq> CHR '':'') (rev name)) \<le> length (rev name)"
    by (rule length_dropWhile_le)
  with ne have "length (parent name) < length name"
    by (cases name) (simp_all add: parent_def)
  then show "(parent name, name) \<in> measure length" by simp
qed

declare parents.simps [simp del]

section \<open>Decimal arithmetic\<close>

text \<open>
  The code does not set the context of the \<open>decimal\<close> module. In the default
  context the precision is 28 significant digits, the rounding is \<open>ROUND_HALF_EVEN\<close>,
  \<open>Emax\<close> is 999999, \<open>Emin\<close> is -999999, and \<open>Overflow\<close> and
  \<open>InvalidOperation\<close> are trapped, so that they raise. An operation computes the exact result and then rounds it to the
  context (\<open>Decimal._fix\<close>). Numbers are compared by value, so a \<open>Decimal\<close> is
  represented by its value; the numbers of a ledger are finite.

  \<open>digits n\<close> is the number of decimal digits of a positive integer, and
  \<open>adjusted v\<close> the exponent of the leading digit of a non-zero number, the \<open>k\<close>
  with \<open>10 ^ k \<le> \<bar>v\<bar> < 10 ^ (k + 1)\<close>.
\<close>

definition Emax :: int where
  "Emax = 999999"

text \<open>\<open>Etiny = Emin - prec + 1\<close>, the exponent of the smallest subnormal number.\<close>

definition Etiny :: int where
  "Etiny = - 1000026"

function digits :: "int \<Rightarrow> int" where
  "digits n = (if n < 10 then 1 else digits (n div 10) + 1)"
  by pat_completeness auto
termination
  by (relation "measure nat") auto

declare digits.simps [simp del]

definition adjusted :: "rat \<Rightarrow> int" where
  "adjusted v =
     (case quotient_of v of
        (p, q) \<Rightarrow>
          let d = digits \<bar>p\<bar> - digits q
          in if 10 powi d \<le> \<bar>v\<bar> then d else d - 1)"

definition round_half_even :: "rat \<Rightarrow> int" where
  "round_half_even x =
     (let f = \<lfloor>x\<rfloor>; r = x - of_int f
      in if r < 1 / 2 then f else if 1 / 2 < r then f + 1
         else if even f then f else f + 1)"

text \<open>
  Rounding an exact result to the context: the coefficient keeps 28 digits, or fewer
  for a subnormal result, whose exponent stops at \<open>Etiny\<close>; a result whose leading
  digit, before or after the rounding, lies above \<open>Emax\<close> signals \<open>Overflow\<close>.
\<close>

definition context_fix :: "rat \<Rightarrow> error + rat" where
  "context_fix v =
     (if v = 0 then Inr 0
      else
        let adj = adjusted v
        in if Emax < adj then Inl Overflow
           else
             let e = max (adj - 27) Etiny;
                 n = round_half_even (v / 10 powi e)
             in if 10 ^ 28 \<le> \<bar>n\<bar> \<and> Emax < adj + 1 then Inl Overflow
                else Inr (of_int n * 10 powi e))"

text \<open>\<open>Decimal.__add__\<close> (and so \<open>+=\<close>) and \<open>Decimal.__neg__\<close>.\<close>

definition decimal_add :: "rat \<Rightarrow> rat \<Rightarrow> error + rat" where
  "decimal_add x y = context_fix (x + y)"

definition decimal_neg :: "rat \<Rightarrow> error + rat" where
  "decimal_neg x = context_fix (- x)"

text \<open>
  \<open>Decimal.quantize(Decimal('.01'))\<close> rounds to two decimal places, ties to the even
  neighbour, and signals \<open>InvalidOperation\<close> when the coefficient of the result would
  have more than 28 digits.
\<close>

definition quantize :: "rat \<Rightarrow> error + rat" where
  "quantize x =
     (let n = round_half_even (x * 100)
      in if 10 ^ 28 \<le> \<bar>n\<bar> then Inl InvalidOperation else Inr (of_int n / 100))"

text \<open>
  The numbers that the context holds without rounding; the result of every operation
  that rounds to the context is one (lemma \<open>context_fix_result_representable\<close>).
\<close>

definition representable :: "rat \<Rightarrow> bool" where
  "representable v \<longleftrightarrow>
     v = 0
     \<or> (adjusted v \<le> Emax
        \<and> (\<exists>n :: int. v = of_int n * 10 powi max (adjusted v - 27) Etiny))"

text \<open>
  The running total of a \<open>+=\<close> loop that starts at \<open>acc\<close>: every addition rounds.
\<close>

fun decimal_sum :: "rat \<Rightarrow> rat list \<Rightarrow> error + rat" where
  "decimal_sum acc [] = Inr acc"
| "decimal_sum acc (x # xs) =
     (case decimal_add acc x of Inl e \<Rightarrow> Inl e | Inr acc' \<Rightarrow> decimal_sum acc' xs)"

section \<open>The ledger library\<close>

text \<open>
  What the code calls in the regular expression engine and in beancount is a record of
  functions, so that every property below holds for whatever these return:
  \<^item> \<open>re_subn\<close>: \<open>re.compile(pattern).subn(replacement, account)\<close>;
  \<^item> \<open>build_price_map\<close>, \<open>get_weight\<close>, \<open>convert_amount\<close>: the functions of these
    names in \<open>beancount.core\<close>;
  \<^item> \<open>real_accounts\<close>: the account names of \<open>iter_children(realize(entries))\<close>, in
    iteration order;
  \<^item> \<open>is_assets_account\<close>: \<open>is_account_type\<close> at the default name of the assets type;
  \<^item> \<open>market_value_inventory\<close>: the units of the positions of
    \<open>compute_balance(real_account).reduce(convert_position, currency, price_map)\<close>,
    for the real account of the given name in the realization of the given entries.
\<close>

record 'pm library =
  re_subn :: subn
  build_price_map :: "directive list \<Rightarrow> 'pm"
  get_weight :: "Posting \<Rightarrow> Amount"
  convert_amount :: "Amount \<Rightarrow> currency \<Rightarrow> 'pm \<Rightarrow> date \<Rightarrow> Amount"
  real_accounts :: "directive list \<Rightarrow> account list"
  is_assets_account :: "account \<Rightarrow> bool"
  market_value_inventory :: "directive list \<Rightarrow> account \<Rightarrow> currency \<Rightarrow> 'pm \<Rightarrow> Amount list"

section \<open>\<open>get_market_values_by_asset_account\<close>\<close>

text \<open>
  The loop over the real accounts. \<open>is_empty\<close> is the empty list of positions;
  \<open>get_only_position\<close> raises \<open>AssertionError\<close> on more than one position. The
  result is a \<open>defaultdict\<close> with default \<open>Decimal(0)\<close>, updated by \<open>+=\<close>.
\<close>

definition add_market_value ::
  "account \<Rightarrow> rat \<Rightarrow> (account \<times> rat) list \<Rightarrow> error + (account \<times> rat) list" where
  "add_market_value a mv d =
     (case decimal_add (case dict_get d a of None \<Rightarrow> 0 | Some v \<Rightarrow> v) mv of
        Inl e \<Rightarrow> Inl e
      | Inr new_value \<Rightarrow> Inr (dict_set a new_value d))"

fun market_values_loop ::
  "'pm library \<Rightarrow> (string \<times> string) list \<Rightarrow> 'pm \<Rightarrow> currency \<Rightarrow> directive list \<Rightarrow>
   account list \<Rightarrow> (account \<times> rat) list \<Rightarrow> error + (account \<times> rat) list" where
  "market_values_loop lib amap pm cur realized [] d = Inr d"
| "market_values_loop lib amap pm cur realized (ra # ras) d =
     (if \<not> is_assets_account lib ra then market_values_loop lib amap pm cur realized ras d
      else case get_asset_account (re_subn lib) ra amap of
        None \<Rightarrow> market_values_loop lib amap pm cur realized ras d
      | Some balance_asset_account \<Rightarrow>
          (case market_value_inventory lib realized ra cur pm of
             [] \<Rightarrow> market_values_loop lib amap pm cur realized ras d
           | [position] \<Rightarrow>
               (case get_number position cur of
                  Inl e \<Rightarrow> Inl e
                | Inr market_value \<Rightarrow>
                    (case add_market_value balance_asset_account market_value d of
                       Inl e \<Rightarrow> Inl e
                     | Inr d' \<Rightarrow> market_values_loop lib amap pm cur realized ras d'))
           | _ # _ # _ \<Rightarrow> Inl AssertionError))"

definition get_market_values_by_asset_account ::
  "'pm library \<Rightarrow> directive list \<Rightarrow> (string \<times> string) list \<Rightarrow> date option \<Rightarrow> 'pm \<Rightarrow>
   currency \<Rightarrow> error + (account \<times> rat) list" where
  "get_market_values_by_asset_account lib entries amap cutoff pm cur =
     (let realized =
            (case cutoff of
               None \<Rightarrow> entries
             | Some d \<Rightarrow> filter (\<lambda>e. entry_date e < d) entries)
      in market_values_loop lib amap pm cur realized (real_accounts lib realized) [])"

section \<open>\<open>get_cashflows_by_asset_account\<close>\<close>

subsection \<open>Pending cashflows of one transaction\<close>

text \<open>
  \<open>pending_cashflow_by_asset_account\<close> is a \<open>defaultdict\<close> whose default is a fresh
  cashflow of kind \<open>txn\<close> and amount zero for the transaction at hand.
\<close>

definition new_txn_cashflow :: "Transaction \<Rightarrow> Cashflow" where
  "new_txn_cashflow entry =
     \<lparr>cf_date = Some (txn_date entry), cf_amount = 0, cf_kind = ''txn'',
      inflow_accounts = {}, outflow_accounts = {}, cf_entry = Some entry\<rparr>"

text \<open>\<open>pending_cashflow_by_asset_account[a].amount += value\<close> (line 115).\<close>

definition pending_add ::
  "Transaction \<Rightarrow> rat \<Rightarrow> account \<Rightarrow> (account \<times> Cashflow) list \<Rightarrow>
   error + (account \<times> Cashflow) list" where
  "pending_add entry val a pending =
     (let cashflow = (case dict_get pending a of None \<Rightarrow> new_txn_cashflow entry | Some c \<Rightarrow> c)
      in case decimal_add (cf_amount cashflow) val of
           Inl e \<Rightarrow> Inl e
         | Inr new_amount \<Rightarrow> Inr (dict_set a (cashflow\<lparr>cf_amount := new_amount\<rparr>) pending))"

text \<open>The loop over \<open>parents(asset_account)\<close> (lines 114 and 115).\<close>

fun add_to_parents ::
  "Transaction \<Rightarrow> rat \<Rightarrow> account list \<Rightarrow> (account \<times> Cashflow) list \<Rightarrow>
   error + (account \<times> Cashflow) list" where
  "add_to_parents entry val [] pending = Inr pending"
| "add_to_parents entry val (a # as) pending =
     (case pending_add entry val a pending of
        Inl e \<Rightarrow> Inl e
      | Inr pending' \<Rightarrow> add_to_parents entry val as pending')"

text \<open>Reading \<open>pending_cashflow_by_asset_account[a].amount\<close>, zero for a bucket not yet touched.\<close>

definition pending_amount :: "(account \<times> Cashflow) list \<Rightarrow> account \<Rightarrow> rat" where
  "pending_amount pending a = (case dict_get pending a of None \<Rightarrow> 0 | Some c \<Rightarrow> cf_amount c)"

text \<open>The body of the loop over \<open>entry.postings\<close> (lines 109 to 115).\<close>

definition process_posting ::
  "'pm library \<Rightarrow> (string \<times> string) list \<Rightarrow> currency \<Rightarrow> 'pm \<Rightarrow> Transaction \<Rightarrow> Posting \<Rightarrow>
   (account \<times> Cashflow) list \<Rightarrow> error + (account \<times> Cashflow) list" where
  "process_posting lib amap cur pm entry posting pending =
     (case get_number (convert_amount lib (get_weight lib posting) cur pm (txn_date entry)) cur of
        Inl e \<Rightarrow> Inl e
      | Inr val \<Rightarrow>
          (case get_asset_account (re_subn lib) (account posting) amap of
             None \<Rightarrow> Inr pending
           | Some asset_account \<Rightarrow>
               add_to_parents entry val (parents asset_account) pending))"

fun process_postings ::
  "'pm library \<Rightarrow> (string \<times> string) list \<Rightarrow> currency \<Rightarrow> 'pm \<Rightarrow> Transaction \<Rightarrow> Posting list \<Rightarrow>
   (account \<times> Cashflow) list \<Rightarrow> error + (account \<times> Cashflow) list" where
  "process_postings lib amap cur pm entry [] pending = Inr pending"
| "process_postings lib amap cur pm entry (p # ps) pending =
     (case process_posting lib amap cur pm entry p pending of
        Inl e \<Rightarrow> Inl e
      | Inr pending' \<Rightarrow> process_postings lib amap cur pm entry ps pending')"

subsection \<open>Emitting the cashflows of one transaction\<close>

text \<open>
  The inner loop of lines 119 to 128: a posting outside the bucket is recorded as an
  outflow account when its weight is positive and as an inflow account otherwise.
\<close>

fun record_flow_accounts ::
  "'pm library \<Rightarrow> (string \<times> string) list \<Rightarrow> account \<Rightarrow> Posting list \<Rightarrow> Cashflow \<Rightarrow> Cashflow" where
  "record_flow_accounts lib amap asset_account [] cashflow = cashflow"
| "record_flow_accounts lib amap asset_account (p # ps) cashflow =
     (if (case get_asset_account (re_subn lib) (account p) amap of
            None \<Rightarrow> True
          | Some posting_asset_account \<Rightarrow> asset_account \<notin> set (parents posting_asset_account))
      then
        (if number (get_weight lib p) > 0
         then record_flow_accounts lib amap asset_account ps
                (cashflow\<lparr>outflow_accounts := insert (account p) (outflow_accounts cashflow)\<rparr>)
         else record_flow_accounts lib amap asset_account ps
                (cashflow\<lparr>inflow_accounts := insert (account p) (inflow_accounts cashflow)\<rparr>))
      else record_flow_accounts lib amap asset_account ps cashflow)"

text \<open>
  The result \<open>cashflows_by_asset_account\<close> is a \<open>defaultdict\<close> with default \<open>[]\<close>,
  read only by key: a map from bucket names to lists.
\<close>

definition bucket :: "(account \<rightharpoonup> Cashflow list) \<Rightarrow> account \<Rightarrow> Cashflow list" where
  "bucket m a = (case m a of None \<Rightarrow> [] | Some cs \<Rightarrow> cs)"

definition append_cashflow ::
  "(account \<rightharpoonup> Cashflow list) \<Rightarrow> account \<Rightarrow> Cashflow \<Rightarrow> (account \<rightharpoonup> Cashflow list)" where
  "append_cashflow m a c = m(a \<mapsto> bucket m a @ [c])"

definition insert_first ::
  "(account \<rightharpoonup> Cashflow list) \<Rightarrow> account \<Rightarrow> Cashflow \<Rightarrow> (account \<rightharpoonup> Cashflow list)" where
  "insert_first m a c = m(a \<mapsto> c # bucket m a)"

fun emit_cashflows ::
  "'pm library \<Rightarrow> (string \<times> string) list \<Rightarrow> Transaction \<Rightarrow> (account \<times> Cashflow) list \<Rightarrow>
   (account \<rightharpoonup> Cashflow list) \<Rightarrow> error + (account \<rightharpoonup> Cashflow list)" where
  "emit_cashflows lib amap entry [] m = Inr m"
| "emit_cashflows lib amap entry ((asset_account, cashflow) # pending) m =
     (case quantize (cf_amount cashflow) of
        Inl e \<Rightarrow> Inl e
      | Inr cents \<Rightarrow>
          emit_cashflows lib amap entry pending
            (if cents \<noteq> 0
             then append_cashflow m asset_account
                    (record_flow_accounts lib amap asset_account (postings entry) cashflow)
             else m))"

subsection \<open>The loop over the transactions\<close>

fun extract_txn_cashflows ::
  "'pm library \<Rightarrow> (string \<times> string) list \<Rightarrow> date option \<Rightarrow> date option \<Rightarrow> currency \<Rightarrow> 'pm \<Rightarrow>
   Transaction list \<Rightarrow> (account \<rightharpoonup> Cashflow list) \<Rightarrow> error + (account \<rightharpoonup> Cashflow list)" where
  "extract_txn_cashflows lib amap start_date_inclusive end_date_inclusive cur pm [] m = Inr m"
| "extract_txn_cashflows lib amap start_date_inclusive end_date_inclusive cur pm (entry # es) m =
     (if (case start_date_inclusive of None \<Rightarrow> False | Some s \<Rightarrow> \<not> s \<le> txn_date entry)
      then extract_txn_cashflows lib amap start_date_inclusive end_date_inclusive cur pm es m
      else if (case end_date_inclusive of None \<Rightarrow> False | Some e \<Rightarrow> \<not> txn_date entry \<le> e)
      then extract_txn_cashflows lib amap start_date_inclusive end_date_inclusive cur pm es m
      else
        (case process_postings lib amap cur pm entry (postings entry) [] of
           Inl e \<Rightarrow> Inl e
         | Inr pending \<Rightarrow>
             (case emit_cashflows lib amap entry pending m of
                Inl e \<Rightarrow> Inl e
              | Inr m' \<Rightarrow>
                  extract_txn_cashflows lib amap start_date_inclusive end_date_inclusive cur pm
                    es m')))"

subsection \<open>Boundary cashflows and the whole extraction\<close>

text \<open>
  The constructor calls of lines 137 and 147, with the default empty sets of accounts
  and no entry, and the loops around them. The amount of a starting balance is the
  market value; the amount of an ending balance is \<open>-market_value\<close>, a \<open>Decimal\<close>
  operation that the loop evaluates before it constructs the cashflow.
\<close>

definition starting_balance :: "date \<Rightarrow> rat \<Rightarrow> Cashflow" where
  "starting_balance start_date_inclusive market_value =
     \<lparr>cf_date = Some start_date_inclusive, cf_amount = market_value,
      cf_kind = ''starting balance'', inflow_accounts = {}, outflow_accounts = {},
      cf_entry = None\<rparr>"

definition ending_balance :: "date option \<Rightarrow> rat \<Rightarrow> Cashflow" where
  "ending_balance end_date_inclusive amount =
     \<lparr>cf_date = end_date_inclusive, cf_amount = amount,
      cf_kind = ''ending balance'', inflow_accounts = {}, outflow_accounts = {},
      cf_entry = None\<rparr>"

fun insert_starting_balances ::
  "date \<Rightarrow> (account \<times> rat) list \<Rightarrow> (account \<rightharpoonup> Cashflow list) \<Rightarrow> (account \<rightharpoonup> Cashflow list)" where
  "insert_starting_balances s [] m = m"
| "insert_starting_balances s ((asset_account, market_value) # mvs) m =
     insert_starting_balances s mvs (insert_first m asset_account (starting_balance s market_value))"

fun append_ending_balances ::
  "date option \<Rightarrow> (account \<times> rat) list \<Rightarrow> (account \<rightharpoonup> Cashflow list) \<Rightarrow>
   error + (account \<rightharpoonup> Cashflow list)" where
  "append_ending_balances e [] m = Inr m"
| "append_ending_balances e ((asset_account, market_value) # mvs) m =
     (case decimal_neg market_value of
        Inl err \<Rightarrow> Inl err
      | Inr amount \<Rightarrow>
          append_ending_balances e mvs (append_cashflow m asset_account (ending_balance e amount)))"

text \<open>
  \<open>end_date_inclusive + relativedelta(days=1)\<close>: the day after, which does not exist
  after \<open>date.max\<close> (9999-12-31, ordinal 3652059), where the addition raises
  \<open>OverflowError\<close>.
\<close>

definition date_max :: date where
  "date_max = 3652059"

definition next_day :: "date \<Rightarrow> error + date" where
  "next_day d = (if d + 1 > date_max then Inl OverflowError else Inr (d + 1))"

definition ending_cutoff :: "date option \<Rightarrow> error + date option" where
  "ending_cutoff end_date_inclusive =
     (case end_date_inclusive of
        None \<Rightarrow> Inr None
      | Some e \<Rightarrow> (case next_day e of Inl err \<Rightarrow> Inl err | Inr d \<Rightarrow> Inr (Some d)))"

definition get_cashflows_by_asset_account ::
  "'pm library \<Rightarrow> directive list \<Rightarrow> (string \<times> string) list \<Rightarrow> date option \<Rightarrow> date option \<Rightarrow>
   currency \<Rightarrow> error + (account \<rightharpoonup> Cashflow list)" where
  "get_cashflows_by_asset_account lib entries asset_account_map start_date_inclusive
       end_date_inclusive cur =
     (let amap = dict_of asset_account_map [];
          price_map = build_price_map lib entries;
          only_txns = filter_txns entries
      in case extract_txn_cashflows lib amap start_date_inclusive end_date_inclusive cur
                price_map only_txns Map.empty of
           Inl e \<Rightarrow> Inl e
         | Inr m1 \<Rightarrow>
             (case (case start_date_inclusive of
                      None \<Rightarrow> Inr m1
                    | Some s \<Rightarrow>
                        (case get_market_values_by_asset_account lib entries amap (Some s)
                                price_map cur of
                           Inl e \<Rightarrow> Inl e
                         | Inr mvs \<Rightarrow> Inr (insert_starting_balances s mvs m1))) of
                Inl e \<Rightarrow> Inl e
              | Inr m2 \<Rightarrow>
                  (case ending_cutoff end_date_inclusive of
                     Inl e \<Rightarrow> Inl e
                   | Inr cutoff \<Rightarrow>
                       (case get_market_values_by_asset_account lib entries amap cutoff
                               price_map cur of
                          Inl e \<Rightarrow> Inl e
                        | Inr mvs \<Rightarrow> append_ending_balances end_date_inclusive mvs m2))))"

section \<open>\<open>get_cashflows\<close>\<close>

definition placeholder_asset_account :: account where
  "placeholder_asset_account = ''Assets:_AssetAccountForCashflows''"

definition get_cashflows ::
  "'pm library \<Rightarrow> directive list \<Rightarrow> string list \<Rightarrow> string list \<Rightarrow> date option \<Rightarrow> date \<Rightarrow>
   currency \<Rightarrow> error + Cashflow list" where
  "get_cashflows lib entries interesting_accounts internal_accounts date_from date_to cur =
     (let asset_account_map =
            dict_of (map (\<lambda>pattern. (pattern, placeholder_asset_account))
                       (interesting_accounts @ internal_accounts)) []
      in case get_cashflows_by_asset_account lib entries asset_account_map date_from
                (Some date_to) cur of
           Inl e \<Rightarrow> Inl e
         | Inr m \<Rightarrow>
             (case m placeholder_asset_account of
                None \<Rightarrow> Inl KeyError
              | Some cashflows \<Rightarrow> Inr cashflows))"

section \<open>A plain ledger\<close>

text \<open>
  The library on a ledger without price directives, costs or price annotations, with
  literal patterns. The weight of a posting is its units. An amount in the target
  currency is converted at the rate one and an amount in another currency, for which
  there is no price, is returned as it is: \<open>convert_amount\<close> returns its argument.
  The market value inventory of a real account is the balance of its subtree, one
  position per currency with a non-zero total. The realization has a node for the root
  (the empty name), for every account posted to and for every ancestor of one; the
  order in which they are listed only decides the insertion order of dictionaries.
  Balances are added exactly, as the library does while they fit in 28 digits; the
  market values of this library are evaluated below only on ledgers with such balances.
\<close>

fun all_postings :: "directive list \<Rightarrow> Posting list" where
  "all_postings [] = []"
| "all_postings (Txn t # es) = postings t @ all_postings es"
| "all_postings (Other d # es) = all_postings es"

fun add_amount :: "Amount \<Rightarrow> Amount list \<Rightarrow> Amount list" where
  "add_amount u [] = (if number u = 0 then [] else [u])"
| "add_amount u (p # ps) =
     (if currency p = currency u then
        (if number p + number u = 0 then ps else p\<lparr>number := number p + number u\<rparr> # ps)
      else p # add_amount u ps)"

definition subtree_balance :: "directive list \<Rightarrow> account \<Rightarrow> Amount list" where
  "subtree_balance entries a =
     fold add_amount
       (map units (filter (\<lambda>p. a = [] \<or> a \<in> set (parents (account p))) (all_postings entries)))
       []"

definition plain_ledger :: "unit library" where
  "plain_ledger =
     \<lparr>re_subn = literal_subn,
      build_price_map = (\<lambda>entries. ()),
      get_weight = units,
      convert_amount = (\<lambda>amt cur pm d. amt),
      real_accounts =
        (\<lambda>entries. [] # remdups (concat (map (\<lambda>p. rev (parents (account p))) (all_postings entries)))),
      is_assets_account = prefix ''Assets:'',
      market_value_inventory = (\<lambda>entries a cur pm. subtree_balance entries a)\<rparr>"

section \<open>Example ledgers\<close>

text \<open>
  A cash account that is overdrawn by a purchase on day 1 and receives a salary on day
  10, with another directive between the two, and the rule that maps the cash account
  to itself.
\<close>

definition usd :: "rat \<Rightarrow> Amount" where
  "usd n = \<lparr>number = n, currency = ''USD''\<rparr>"

definition cash_ledger :: "directive list" where
  "cash_ledger =
     [Txn \<lparr>txn_date = 1, postings =
        [\<lparr>account = ''Assets:Cash'', units = usd (- 50)\<rparr>,
         \<lparr>account = ''Expenses:Food'', units = usd 50\<rparr>]\<rparr>,
      Other 3,
      Txn \<lparr>txn_date = 10, postings =
        [\<lparr>account = ''Assets:Cash'', units = usd 20\<rparr>,
         \<lparr>account = ''Income:Salary'', units = usd (- 20)\<rparr>]\<rparr>]"

definition cash_rules :: "(string \<times> string) list" where
  "cash_rules = [(''Assets:Cash'', ''Assets:Cash'')]"

text \<open>
  A brokerage: the fund account resolves to itself under the first rule, the dividend
  income account to the fund under the second. The purchase is funded from an account
  outside the rules; the dividend is booked between two accounts of the same bucket.
\<close>

definition brokerage_rules :: "(string \<times> string) list" where
  "brokerage_rules =
     [(''Assets:Brokerage'', ''Assets:Brokerage''), (''Income:Dividends'', ''Assets:Brokerage:BND'')]"

definition purchase :: Transaction where
  "purchase = \<lparr>txn_date = 7, postings =
     [\<lparr>account = ''Assets:Brokerage:BND'', units = usd 100\<rparr>,
      \<lparr>account = ''Assets:Checking'', units = usd (- 100)\<rparr>]\<rparr>"

definition dividend :: Transaction where
  "dividend = \<lparr>txn_date = 8, postings =
     [\<lparr>account = ''Assets:Brokerage:BND'', units = usd 3\<rparr>,
      \<lparr>account = ''Income:Dividends'', units = usd (- 3)\<rparr>]\<rparr>"


text \<open>
  A deposit so large that one dollar more does not fit in 28 digits: the first posting
  is booked on the brokerage account itself, the second on the fund below it.
\<close>

definition large_deposit :: Transaction where
  "large_deposit = \<lparr>txn_date = 7, postings =
     [\<lparr>account = ''Assets:Brokerage'', units = usd (10 ^ 28)\<rparr>,
      \<lparr>account = ''Assets:Brokerage:BND'', units = usd 1\<rparr>,
      \<lparr>account = ''Assets:Checking'', units = usd (- (10 ^ 28) - 1)\<rparr>]\<rparr>"

text \<open>
  A transaction between accounts of the fund's bucket whose three amounts sum to zero,
  the second being lost when it is added to the first.
\<close>

definition rounded_transfer :: Transaction where
  "rounded_transfer = \<lparr>txn_date = 8, postings =
     [\<lparr>account = ''Assets:Brokerage:BND'', units = usd (10 ^ 26)\<rparr>,
      \<lparr>account = ''Assets:Brokerage:BND'', units = usd (1 / 100)\<rparr>,
      \<lparr>account = ''Income:Dividends'', units = usd (- (10 ^ 26) - 1 / 100)\<rparr>]\<rparr>"

text \<open>A rule whose replacement is empty: the cash account resolves to the empty name.\<close>

definition closing_rules :: "(string \<times> string) list" where
  "closing_rules = [(''Assets:Cash'', '''')]"

text \<open>
  The list a returned mapping holds for a bucket, and the pending total of a bucket, if
  the call returned.
\<close>

definition returned_pending_amount ::
  "error + (account \<times> Cashflow) list \<Rightarrow> account \<Rightarrow> rat option" where
  "returned_pending_amount r a =
     (case r of Inl e \<Rightarrow> None | Inr pending \<Rightarrow> Some (pending_amount pending a))"

definition returned_bucket ::
  "error + (account \<rightharpoonup> Cashflow list) \<Rightarrow> account \<Rightarrow> Cashflow list option" where
  "returned_bucket r a = (case r of Inl e \<Rightarrow> None | Inr m \<Rightarrow> m a)"

section \<open>Auxiliary lemmas\<close>

subsection \<open>Decimal arithmetic\<close>

lemma p10_pos: "0 < (10::rat) powi k"
  by simp

lemma p10_Suc: "(10::rat) powi (k + 1) = 10 * 10 powi k"
  by (simp add: power_int_add)

lemma p10_mono: "a \<le> b \<Longrightarrow> (10::rat) powi a \<le> 10 powi b"
  by (rule power_int_increasing) simp_all

lemma p10_less_iff: "(10::rat) powi a < 10 powi b \<longleftrightarrow> a < b"
proof
  assume "(10::rat) powi a < 10 powi b"
  show "a < b"
  proof (rule ccontr)
    assume "\<not> a < b"
    then have "b \<le> a" by simp
    from p10_mono [OF this] \<open>(10::rat) powi a < 10 powi b\<close> show False by simp
  qed
next
  assume "a < b"
  then show "(10::rat) powi a < 10 powi b"
    by (intro power_int_strict_increasing) simp_all
qed

lemma digits_pos: "0 < digits n"
proof (induction n rule: digits.induct)
  case (1 n)
  show ?case
  proof (cases "n < 10")
    case True
    then show ?thesis by (subst digits.simps) simp
  next
    case False
    with "1.IH" show ?thesis by (subst digits.simps) simp
  qed
qed

lemma digits_bounds:
  "0 < n \<Longrightarrow> (10::rat) powi (digits n - 1) \<le> of_int n \<and> (of_int n :: rat) < 10 powi digits n"
proof (induction n rule: digits.induct)
  case (1 n)
  show ?case
  proof (cases "n < 10")
    case True
    with "1.prems" have "1 \<le> n" "n < 10" by simp_all
    then have "(of_int 1 :: rat) \<le> of_int n" "(of_int n :: rat) < of_int 10"
      by (simp_all only: of_int_le_iff of_int_less_iff)
    then have n: "(1::rat) \<le> of_int n" "(of_int n :: rat) < 10" by simp_all
    have "digits n = 1" using True by (subst digits.simps) simp
    with n show ?thesis by simp
  next
    case False
    let ?m = "n div 10"
    from False have m: "0 < ?m" by simp
    from "1.IH" [OF False m] have
      lo: "(10::rat) powi (digits ?m - 1) \<le> of_int ?m" and
      hi: "(of_int ?m :: rat) < 10 powi digits ?m" by simp_all
    have d: "digits n = digits ?m + 1" using False by (subst digits.simps) simp
    have "10 * ?m \<le> n" by simp
    then have "(of_int (10 * ?m) :: rat) \<le> of_int n" by (simp only: of_int_le_iff)
    then have a: "10 * (of_int ?m :: rat) \<le> of_int n" by simp
    have "n < 10 * ?m + 10" by simp
    then have "n + 1 \<le> 10 * (?m + 1)" by simp
    then have "(of_int (n + 1) :: rat) \<le> of_int (10 * (?m + 1))" by (simp only: of_int_le_iff)
    then have b: "(of_int n :: rat) + 1 \<le> 10 * (of_int ?m + 1)" by simp
    have "(of_int ?m :: rat) + 1 \<le> 10 powi digits ?m"
    proof -
      have "10 powi digits ?m = (of_int (10 ^ nat (digits ?m)) :: rat)"
      proof -
        have "0 \<le> digits ?m"
          using digits_pos [of ?m] by simp
        then show ?thesis by (simp add: power_int_def)
      qed
      with hi have "(of_int ?m :: rat) < of_int (10 ^ nat (digits ?m))" by simp
      then have "?m < 10 ^ nat (digits ?m)" by (simp only: of_int_less_iff)
      then have "?m + 1 \<le> 10 ^ nat (digits ?m)" by simp
      then have "(of_int (?m + 1) :: rat) \<le> of_int (10 ^ nat (digits ?m))"
        by (simp only: of_int_le_iff)
      with \<open>10 powi digits ?m = (of_int (10 ^ nat (digits ?m)) :: rat)\<close> show ?thesis
        by simp
    qed
    with b have "(of_int n :: rat) + 1 \<le> 10 * 10 powi digits ?m" by simp
    then have hi': "(of_int n :: rat) < 10 powi (digits ?m + 1)" by (simp add: p10_Suc)
    from lo a have "10 * (10::rat) powi (digits ?m - 1) \<le> of_int n" by simp
    then have lo': "(10::rat) powi digits ?m \<le> of_int n"
      using p10_Suc [of "digits ?m - 1"] by simp
    from lo' hi' d show ?thesis by simp
  qed
qed

lemma adjusted_bounds:
  assumes "v \<noteq> 0"
  shows "10 powi adjusted v \<le> \<bar>v\<bar> \<and> \<bar>v\<bar> < 10 powi (adjusted v + 1)"
proof -
  obtain p q where pq: "quotient_of v = (p, q)" by (cases "quotient_of v")
  have q: "0 < q" using pq by (rule quotient_of_denom_pos)
  have v: "v = of_int p / of_int q" using pq by (rule quotient_of_div)
  with assms have p: "0 < \<bar>p\<bar>" by auto
  have av: "\<bar>v\<bar> = of_int \<bar>p\<bar> / of_int q" using q by (simp add: v abs_divide)
  let ?dp = "digits \<bar>p\<bar>" and ?dq = "digits q"
  let ?d = "?dp - ?dq"
  from digits_bounds [OF p] have
    A1: "(10::rat) powi (?dp - 1) \<le> of_int \<bar>p\<bar>" and A2: "(of_int \<bar>p\<bar> :: rat) < 10 powi ?dp"
    by simp_all
  from digits_bounds [OF q] have
    B1: "(10::rat) powi (?dq - 1) \<le> of_int q" and B2: "(of_int q :: rat) < 10 powi ?dq"
    by simp_all
  have qpos: "(0::rat) < of_int q" using q by simp
  have ppos: "(0::rat) < of_int \<bar>p\<bar>" using p by simp
  have lower: "(10::rat) powi (?d - 1) \<le> \<bar>v\<bar>"
  proof -
    have "(10::rat) powi (?d - 1) = 10 powi (?dp - 1) / 10 powi ?dq"
      using power_int_diff [of "10::rat" "?dp - 1" ?dq] by (simp add: algebra_simps)
    also have "\<dots> \<le> of_int \<bar>p\<bar> / of_int q"
      by (rule frac_le) (use A1 B2 qpos in simp_all)
    finally show ?thesis by (simp only: av)
  qed
  have upper: "\<bar>v\<bar> < (10::rat) powi (?d + 1)"
  proof -
    have "of_int \<bar>p\<bar> / of_int q < (10::rat) powi ?dp / of_int q"
      using A2 qpos by (simp add: divide_strict_right_mono)
    also have "\<dots> \<le> 10 powi ?dp / 10 powi (?dq - 1)"
      by (rule frac_le) (use B1 in simp_all)
    also have "\<dots> = 10 powi (?d + 1)"
      using power_int_diff [of "10::rat" ?dp "?dq - 1"] by (simp add: algebra_simps)
    finally show ?thesis by (simp only: av)
  qed
  have adj: "adjusted v = (if 10 powi ?d \<le> \<bar>v\<bar> then ?d else ?d - 1)"
    by (simp add: adjusted_def pq Let_def)
  show ?thesis
  proof (cases "10 powi ?d \<le> \<bar>v\<bar>")
    case True
    with adj upper show ?thesis by simp
  next
    case False
    with adj lower show ?thesis by simp
  qed
qed

lemma adjusted_unique:
  assumes "10 powi k \<le> \<bar>v\<bar>" and "\<bar>v\<bar> < 10 powi (k + 1)"
  shows "adjusted v = k"
proof -
  from assms(1) p10_pos [of k] have "0 < \<bar>v\<bar>" by linarith
  then have "v \<noteq> 0" by simp
  from adjusted_bounds [OF this] have
    lo: "10 powi adjusted v \<le> \<bar>v\<bar>" and hi: "\<bar>v\<bar> < 10 powi (adjusted v + 1)" by simp_all
  from assms(1) hi have "(10::rat) powi k < 10 powi (adjusted v + 1)" by simp
  then have 1: "k < adjusted v + 1" by (simp only: p10_less_iff)
  from lo assms(2) have "(10::rat) powi adjusted v < 10 powi (k + 1)" by simp
  then have 2: "adjusted v < k + 1" by (simp only: p10_less_iff)
  from 1 2 show ?thesis by simp
qed

lemma adjusted_minus: "adjusted (- v) = adjusted v"
proof (cases "v = 0")
  case True
  then show ?thesis by simp
next
  case False
  from adjusted_bounds [OF False] show ?thesis
    by (intro adjusted_unique) simp_all
qed

lemma round_half_even_cases:
  "round_half_even x = \<lfloor>x\<rfloor> \<or> round_half_even x = \<lfloor>x\<rfloor> + 1"
  by (simp add: round_half_even_def Let_def)

lemma round_half_even_of_int: "round_half_even (of_int n) = n"
  by (simp add: round_half_even_def Let_def)

lemma round_half_even_ge: "of_int N \<le> x \<Longrightarrow> N \<le> round_half_even x"
proof -
  assume "of_int N \<le> x"
  then have "N \<le> \<lfloor>x\<rfloor>" by (simp add: le_floor_iff)
  with round_half_even_cases [of x] show ?thesis by auto
qed

lemma round_half_even_le: "x \<le> of_int N \<Longrightarrow> round_half_even x \<le> N"
proof (cases "x = of_int N")
  case True
  then show ?thesis by (simp add: round_half_even_of_int)
next
  case False
  assume "x \<le> of_int N"
  with False have "x < of_int N" by simp
  then have "\<lfloor>x\<rfloor> < N" by (simp add: floor_less_iff)
  with round_half_even_cases [of x] show ?thesis by auto
qed

lemma round_half_even_abs_le:
  assumes "\<bar>x\<bar> \<le> of_int N"
  shows "\<bar>round_half_even x\<bar> \<le> N"
proof -
  from assms have "x \<le> of_int N" "of_int (- N) \<le> x" by simp_all
  from round_half_even_le [OF this(1)] round_half_even_ge [OF this(2)] show ?thesis by simp
qed

lemma round_half_even_abs_ge:
  assumes "of_int N \<le> \<bar>x\<bar>" and "0 \<le> N"
  shows "N \<le> \<bar>round_half_even x\<bar>"
proof (cases "0 \<le> x")
  case True
  with assms have "of_int N \<le> x" by simp
  from round_half_even_ge [OF this] show ?thesis by simp
next
  case False
  with assms have "x \<le> of_int (- N)" by simp
  from round_half_even_le [OF this] show ?thesis by simp
qed

lemma p10_28: "(10::rat) powi 28 = of_int (10 ^ 28)"
  by simp

lemma context_fix_representable:
  assumes "representable v"
  shows "context_fix v = Inr v"
proof (cases "v = 0")
  case True
  then show ?thesis by (simp add: context_fix_def)
next
  case False
  let ?adj = "adjusted v"
  let ?e = "max (?adj - 27) Etiny"
  from assms False obtain n :: int where
    range: "?adj \<le> Emax" and v: "v = of_int n * 10 powi ?e"
    by (auto simp: representable_def)
  have x: "v / 10 powi ?e = of_int n"
  proof -
    have "of_int n * (10::rat) powi ?e / 10 powi ?e = of_int n" by simp
    with v show ?thesis by simp
  qed
  have n: "round_half_even (v / 10 powi ?e) = n" by (simp only: x round_half_even_of_int)
  have small: "\<bar>n\<bar> < 10 ^ 28"
  proof -
    from adjusted_bounds [OF False] have "\<bar>v\<bar> < 10 powi (?adj + 1)" by simp
    also have "\<dots> \<le> 10 powi (28 + ?e)" by (rule p10_mono) simp
    also have "\<dots> = 10 powi 28 * 10 powi ?e" by (simp add: power_int_add)
    finally have "\<bar>v\<bar> / 10 powi ?e < 10 powi 28"
      by (simp add: pos_divide_less_eq)
    moreover have "\<bar>v\<bar> / 10 powi ?e = \<bar>of_int n :: rat\<bar>"
    proof -
      have "\<bar>v / 10 powi ?e\<bar> = \<bar>v\<bar> / 10 powi ?e" by (simp add: abs_divide)
      with x show ?thesis by simp
    qed
    ultimately have "(of_int \<bar>n\<bar> :: rat) < of_int (10 ^ 28)" by simp
    then show ?thesis by (simp only: of_int_less_iff)
  qed
  show ?thesis
    using False range small v [symmetric]
    by (simp add: context_fix_def Let_def n)
qed

lemma representable_minus: "representable v \<Longrightarrow> representable (- v)"
proof -
  assume r: "representable v"
  show ?thesis
  proof (cases "v = 0")
    case True
    then show ?thesis by (simp add: representable_def)
  next
    case False
    with r obtain n :: int where
      "adjusted v \<le> Emax" "v = of_int n * 10 powi max (adjusted v - 27) Etiny"
      by (auto simp: representable_def)
    then have "adjusted (- v) \<le> Emax"
      "- v = of_int (- n) * 10 powi max (adjusted (- v) - 27) Etiny"
      by (simp_all add: adjusted_minus)
    then show ?thesis unfolding representable_def by blast
  qed
qed

lemma Etiny_range: "Etiny + 27 \<le> Emax"
  by (simp add: Etiny_def Emax_def)

lemma context_fix_result_representable:
  assumes "context_fix v = Inr r"
  shows "representable r"
proof (cases "v = 0")
  case True
  with assms show ?thesis by (simp add: context_fix_def representable_def)
next
  case False
  let ?adj = "adjusted v"
  let ?e = "max (?adj - 27) Etiny"
  let ?x = "v / 10 powi ?e"
  let ?n = "round_half_even ?x"
  from assms False have
    range: "?adj \<le> Emax" and
    carry: "\<not> (10 ^ 28 \<le> \<bar>?n\<bar> \<and> Emax < ?adj + 1)" and
    r: "r = of_int ?n * 10 powi ?e"
    by (auto simp: context_fix_def Let_def split: if_splits)
  show ?thesis
  proof (cases "?n = 0")
    case True
    with r show ?thesis by (simp add: representable_def)
  next
    case n0: False
    then have r0: "r \<noteq> 0" by (simp add: r)
    have absr: "\<bar>r\<bar> = of_int \<bar>?n\<bar> * 10 powi ?e"
      by (simp add: r abs_mult)
    have absx: "\<bar>?x\<bar> = \<bar>v\<bar> / 10 powi ?e" by (simp add: abs_divide)
    from adjusted_bounds [OF False] have
      vlo: "10 powi ?adj \<le> \<bar>v\<bar>" and vhi: "\<bar>v\<bar> < 10 powi (?adj + 1)" by simp_all
    \<comment> \<open>the scaled value lies below \<open>10 ^ (adj + 1 - e)\<close>\<close>
    have xhi: "\<bar>?x\<bar> < 10 powi (?adj + 1 - ?e)"
    proof -
      have "10 powi (?adj + 1) = (10::rat) powi (?adj + 1 - ?e) * 10 powi ?e"
        using power_int_add [of "10::rat" "?adj + 1 - ?e" ?e] by simp
      with vhi have "\<bar>v\<bar> < (10::rat) powi (?adj + 1 - ?e) * 10 powi ?e" by simp
      then show ?thesis by (simp add: absx pos_divide_less_eq)
    qed
    \<comment> \<open>so the rounded coefficient has at most 28 digits, or is \<open>10 ^ 28\<close>\<close>
    have nle: "\<bar>?n\<bar> \<le> 10 ^ 28"
    proof -
      have "(10::rat) powi (?adj + 1 - ?e) \<le> 10 powi 28" by (rule p10_mono) simp
      with xhi have "\<bar>?x\<bar> \<le> of_int (10 ^ 28)" by simp
      then show ?thesis by (rule round_half_even_abs_le)
    qed
    let ?a = "adjusted r"
    from adjusted_bounds [OF r0] have
      rlo: "10 powi ?a \<le> \<bar>r\<bar>" and rhi: "\<bar>r\<bar> < 10 powi (?a + 1)" by simp_all
    show ?thesis
    proof (cases "\<bar>?n\<bar> = 10 ^ 28")
      case True
      \<comment> \<open>rounding carried into a 29th digit: one digit is dropped and the exponent grows\<close>
      with carry have range': "?adj + 1 \<le> Emax" by simp
      have normal: "?e = ?adj - 27"
      proof (rule ccontr)
        assume "?e \<noteq> ?adj - 27"
        then have "?adj + 1 - ?e \<le> 27" by simp
        then have "(10::rat) powi (?adj + 1 - ?e) \<le> 10 powi 27" by (rule p10_mono)
        with xhi have "\<bar>?x\<bar> \<le> of_int (10 ^ 27)" by simp
        from round_half_even_abs_le [OF this] True show False by simp
      qed
      have "\<bar>r\<bar> = 10 powi (28 + ?e)"
        using True by (simp add: absr power_int_add)
      then have "10 powi (?e + 28) \<le> \<bar>r\<bar>" "\<bar>r\<bar> < 10 powi (?e + 28 + 1)"
        by (simp_all add: p10_less_iff add.commute)
      then have a: "?a = ?e + 28" by (rule adjusted_unique)
      have e': "max (?a - 27) Etiny = ?e + 1" by (simp add: a)
      have "r = of_int (?n div 10) * 10 powi (?e + 1)"
      proof -
        from True have "?n = 10 ^ 28 \<or> ?n = - (10 ^ 28)" by linarith
        then have "?n = (?n div 10) * 10" by auto
        then have "(of_int ?n :: rat) = of_int (?n div 10) * 10"
          by (metis of_int_mult of_int_numeral)
        then show ?thesis by (simp add: r p10_Suc)
      qed
      moreover have "?a \<le> Emax" using a normal range' by simp
      ultimately show ?thesis unfolding representable_def e' by blast
    next
      case False
      with nle have nlt: "\<bar>?n\<bar> < 10 ^ 28" by simp
      then have "\<bar>?n\<bar> + 1 \<le> 10 ^ 28" by simp
      then have "(of_int (\<bar>?n\<bar> + 1) :: rat) \<le> of_int (10 ^ 28)" by (simp only: of_int_le_iff)
      then have "(of_int \<bar>?n\<bar> :: rat) < 10 powi 28" by simp
      then have "\<bar>r\<bar> < 10 powi 28 * 10 powi ?e"
        by (simp add: absr)
      then have "\<bar>r\<bar> < 10 powi (28 + ?e)" by (simp add: power_int_add)
      with rlo have "(10::rat) powi ?a < 10 powi (28 + ?e)" by simp
      then have ahi: "?a < 28 + ?e" by (simp only: p10_less_iff)
      have e': "max (?a - 27) Etiny = ?e"
      proof (cases "?e = ?adj - 27")
        case True
        have "(10::rat) powi 27 * 10 powi ?e = 10 powi ?adj"
          using power_int_add [of "10::rat" 27 ?e] True by simp
        with vlo have "(10::rat) powi 27 * 10 powi ?e \<le> \<bar>v\<bar>" by simp
        then have "of_int (10 ^ 27) \<le> \<bar>?x\<bar>" by (simp add: absx pos_le_divide_eq)
        then have "10 ^ 27 \<le> \<bar>?n\<bar>" by (rule round_half_even_abs_ge) simp
        then have "(of_int (10 ^ 27) :: rat) \<le> of_int \<bar>?n\<bar>" by (simp only: of_int_le_iff)
        then have "(10::rat) powi 27 * 10 powi ?e \<le> \<bar>r\<bar>" by (simp add: absr)
        then have "(10::rat) powi (27 + ?e) \<le> \<bar>r\<bar>" by (simp add: power_int_add)
        with rhi have "(10::rat) powi (27 + ?e) < 10 powi (?a + 1)" by simp
        then have "27 + ?e < ?a + 1" by (simp only: p10_less_iff)
        with ahi True show ?thesis by simp
      next
        case False
        then have "?e = Etiny" by simp
        with ahi show ?thesis by simp
      qed
      have "?a \<le> Emax" using ahi range Etiny_range by simp
      with r show ?thesis unfolding representable_def e' by blast
    qed
  qed
qed

lemma context_fix_idem: "context_fix v = Inr r \<Longrightarrow> context_fix r = Inr r"
  by (rule context_fix_representable) (rule context_fix_result_representable)

lemma decimal_neg_exact: "context_fix v = Inr r \<Longrightarrow> decimal_neg r = Inr (- r)"
  unfolding decimal_neg_def
  by (rule context_fix_representable, rule representable_minus, rule context_fix_result_representable)





lemma quantize_zero: "quantize 0 = Inr 0"
  by (simp add: quantize_def round_half_even_def)

text \<open>
  The arithmetic on some numbers, with the results of the \<open>decimal\<close> module: a sum
  of 29 digits is rounded to 28, ties to the even neighbour, with a carry into a new
  digit where the coefficient is all nines; \<open>quantize\<close> rounds to cents and refuses a
  result of more than 28 digits.
\<close>

lemma decimal_add_rounds:
  "decimal_add (10 ^ 28) 1 = Inr (10 ^ 28)
   \<and> decimal_add (10 ^ 28) 5 = Inr (10 ^ 28)
   \<and> decimal_add (10 ^ 28) 15 = Inr (10 ^ 28 + 20)
   \<and> decimal_add (- (10 ^ 28)) (- 25) = Inr (- (10 ^ 28) - 20)
   \<and> decimal_add 9999999999999999999999999999 (1 / 2) = Inr (10 ^ 28)
   \<and> decimal_add 9999999999999999999999999998 (1 / 2) = Inr 9999999999999999999999999998
   \<and> decimal_add (10 ^ 26) (1 / 100) = Inr (10 ^ 26)
   \<and> decimal_add (1 / 10) (2 / 10) = Inr (3 / 10)"
  by code_simp

lemma decimal_neg_rounds:
  "decimal_neg (10 ^ 26 + 1 / 100) = Inr (- (10 ^ 26))
   \<and> decimal_neg (- 30) = Inr 30"
  by code_simp

lemma quantize_rounds:
  "quantize (5 / 1000) = Inr 0
   \<and> quantize (15 / 1000) = Inr (2 / 100)
   \<and> quantize (- 51 / 10000) = Inr (- 1 / 100)
   \<and> quantize (10 ^ 26) = Inl InvalidOperation
   \<and> quantize (99999999999999999999999999995 / 1000) = Inl InvalidOperation
   \<and> quantize (99999999999999999999999999994 / 1000)
       = Inr (9999999999999999999999999999 / 100)"
  by code_simp

subsection \<open>Dictionaries\<close>

lemma dict_get_map_of: "dict_get d k = map_of d k"
  by (induction d) auto

lemma dict_get_dict_set: "dict_get (dict_set k v d) k' = (if k' = k then Some v else dict_get d k')"
  by (induction d) auto

lemma keys_dict_set: "set (map fst (dict_set k v d)) = insert k (set (map fst d))"
proof (induction d)
  case Nil
  then show ?case by simp
next
  case (Cons kv d)
  obtain k' v' where "kv = (k', v')" by (cases kv)
  with Cons show ?case by (cases "k' = k") auto
qed

lemma distinct_dict_set: "distinct (map fst d) \<Longrightarrow> distinct (map fst (dict_set k v d))"
proof (induction d)
  case Nil
  then show ?case by simp
next
  case (Cons kv d)
  obtain k' v' where kv: "kv = (k', v')" by (cases kv)
  show ?case
  proof (cases "k' = k")
    case True
    with Cons.prems kv show ?thesis by simp
  next
    case False
    from Cons.prems kv have "k' \<notin> set (map fst d)" "distinct (map fst d)" by auto
    with False Cons.IH kv show ?thesis
      using keys_dict_set [of k v d] by simp
  qed
qed

lemma set_dict_set: "set (dict_set k v d) \<subseteq> insert (k, v) (set d)"
proof (induction d)
  case Nil
  then show ?case by simp
next
  case (Cons kv d)
  obtain k' v' where "kv = (k', v')" by (cases kv)
  with Cons show ?case by (cases "k' = k") auto
qed

lemma dict_get_in_set: "dict_get d k = Some v \<Longrightarrow> (k, v) \<in> set d"
  by (simp add: dict_get_map_of map_of_SomeD)

subsection \<open>Market values\<close>

lemma distinct_add_market_value:
  "add_market_value a mv d = Inr d' \<Longrightarrow> distinct (map fst d) \<Longrightarrow> distinct (map fst d')"
  by (auto simp: add_market_value_def distinct_dict_set split: sum.splits)

lemma distinct_market_values_loop:
  "market_values_loop lib amap pm cur realized ras d = Inr d' \<Longrightarrow> distinct (map fst d)
   \<Longrightarrow> distinct (map fst d')"
proof (induction ras arbitrary: d)
  case Nil
  then show ?case by simp
next
  case (Cons ra ras)
  then show ?case
    by (auto split: if_splits option.splits list.splits sum.splits
             dest: distinct_add_market_value)
qed

lemma distinct_get_market_values:
  "get_market_values_by_asset_account lib entries amap cutoff pm cur = Inr mvs
   \<Longrightarrow> distinct (map fst mvs)"
  unfolding get_market_values_by_asset_account_def Let_def
  by (erule distinct_market_values_loop) simp

text \<open>Every market value is the result of an addition, so its negation is exact.\<close>

lemma rounded_add_market_value:
  assumes "add_market_value a mv d = Inr d'"
    and "\<forall>kv \<in> set d. \<exists>u. context_fix u = Inr (snd kv)"
  shows "\<forall>kv \<in> set d'. \<exists>u. context_fix u = Inr (snd kv)"
proof -
  let ?old = "case dict_get d a of None \<Rightarrow> 0 | Some v \<Rightarrow> v"
  from assms(1) obtain t where t: "decimal_add ?old mv = Inr t" and d': "d' = dict_set a t d"
    by (auto simp: add_market_value_def split: sum.splits)
  have sub: "set d' \<subseteq> insert (a, t) (set d)" unfolding d' by (rule set_dict_set)
  from t have new: "\<exists>u. context_fix u = Inr t" unfolding decimal_add_def by blast
  show ?thesis
  proof
    fix kv assume "kv \<in> set d'"
    with sub have "kv = (a, t) \<or> kv \<in> set d" by auto
    then show "\<exists>u. context_fix u = Inr (snd kv)"
    proof
      assume "kv = (a, t)"
      with new show ?thesis by simp
    next
      assume "kv \<in> set d"
      with assms(2) show ?thesis by blast
    qed
  qed
qed

lemma rounded_market_values_loop:
  "market_values_loop lib amap pm cur realized ras d = Inr d'
   \<Longrightarrow> \<forall>kv \<in> set d. \<exists>u. context_fix u = Inr (snd kv)
   \<Longrightarrow> \<forall>kv \<in> set d'. \<exists>u. context_fix u = Inr (snd kv)"
proof (induction ras arbitrary: d)
  case Nil
  then show ?case by simp
next
  case (Cons ra ras)
  from Cons.prems(1) consider
      "market_values_loop lib amap pm cur realized ras d = Inr d'"
    | a mv d1 where "add_market_value a mv d = Inr d1"
        "market_values_loop lib amap pm cur realized ras d1 = Inr d'"
    by (auto split: if_splits option.splits list.splits sum.splits)
  then show ?case
  proof cases
    case 1
    from Cons.IH [OF 1 Cons.prems(2)] show ?thesis .
  next
    case 2
    from Cons.IH [OF 2(2) rounded_add_market_value [OF 2(1) Cons.prems(2)]] show ?thesis .
  qed
qed

lemma market_values_negation:
  assumes "get_market_values_by_asset_account lib entries amap cutoff pm cur = Inr mvs"
  shows "\<forall>kv \<in> set mvs. decimal_neg (snd kv) = Inr (- snd kv)"
proof -
  from assms have "\<forall>kv \<in> set mvs. \<exists>u. context_fix u = Inr (snd kv)"
    unfolding get_market_values_by_asset_account_def Let_def
    by (rule rounded_market_values_loop) simp
  then show ?thesis by (blast intro: decimal_neg_exact)
qed

subsection \<open>Boundary\<close>

lemma bucket_upd: "bucket (m(a \<mapsto> cs)) a' = (if a' = a then cs else bucket m a')"
  by (simp add: bucket_def)

lemma append_cashflow_apply:
  "append_cashflow m k c a = (if a = k then Some (bucket m k @ [c]) else m a)"
  by (simp add: append_cashflow_def)

lemma insert_first_apply:
  "insert_first m k c a = (if a = k then Some (c # bucket m k) else m a)"
  by (simp add: insert_first_def)

lemma bucket_append_cashflow:
  "bucket (append_cashflow m k c) a = (if a = k then bucket m k @ [c] else bucket m a)"
  by (simp add: append_cashflow_def bucket_def)

lemma bucket_insert_first:
  "bucket (insert_first m k c) a = (if a = k then c # bucket m k else bucket m a)"
  by (simp add: insert_first_def bucket_def)

lemma insert_starting_balances_apply:
  "distinct (map fst mvs) \<Longrightarrow>
   insert_starting_balances s mvs m a =
     (case map_of mvs a of
        None \<Rightarrow> m a
      | Some v \<Rightarrow> Some (starting_balance s v # bucket m a))"
proof (induction mvs arbitrary: m)
  case Nil
  then show ?case by simp
next
  case (Cons kv mvs)
  obtain k v where kv: "kv = (k, v)" by (cases kv)
  from Cons.prems kv have notin: "map_of mvs k = None" and d: "distinct (map fst mvs)"
    by (auto simp: map_of_eq_None_iff)
  show ?case
    using notin
    by (simp add: kv Cons.IH [OF d] insert_first_apply bucket_insert_first
             split: option.splits)
qed

lemma append_ending_balances_apply:
  "distinct (map fst mvs) \<Longrightarrow> \<forall>kv \<in> set mvs. decimal_neg (snd kv) = Inr (- snd kv) \<Longrightarrow>
   \<exists>m'. append_ending_balances e mvs m = Inr m'
       \<and> (\<forall>a. m' a =
            (case map_of mvs a of
               None \<Rightarrow> m a
             | Some v \<Rightarrow> Some (bucket m a @ [ending_balance e (- v)])))"
proof (induction mvs arbitrary: m)
  case Nil
  then show ?case by simp
next
  case (Cons kv mvs)
  obtain k v where kv: "kv = (k, v)" by (cases kv)
  from Cons.prems(1) kv have notin: "map_of mvs k = None" and d: "distinct (map fst mvs)"
    by (auto simp: map_of_eq_None_iff)
  from Cons.prems(2) kv have neg: "decimal_neg v = Inr (- v)"
    and rest: "\<forall>kv \<in> set mvs. decimal_neg (snd kv) = Inr (- snd kv)" by auto
  let ?m = "append_cashflow m k (ending_balance e (- v))"
  from Cons.IH [OF d rest, of ?m] obtain m' where
    m': "append_ending_balances e mvs ?m = Inr m'" and
    app: "\<forall>a. m' a =
            (case map_of mvs a of
               None \<Rightarrow> ?m a
             | Some v \<Rightarrow> Some (bucket ?m a @ [ending_balance e (- v)]))" by blast
  have "append_ending_balances e (kv # mvs) m = Inr m'"
    using m' neg by (simp add: kv)
  moreover have "\<forall>a. m' a =
            (case map_of (kv # mvs) a of
               None \<Rightarrow> m a
             | Some v \<Rightarrow> Some (bucket m a @ [ending_balance e (- v)]))"
    using notin app
    by (simp add: kv append_cashflow_apply bucket_append_cashflow split: option.splits)
  ultimately show ?case by blast
qed


subsection \<open>Pending cashflows\<close>

lemma pending_add_preserves:
  assumes r: "pending_add entry val k pending = Inr pending'"
    and inv: "\<forall>kc \<in> set pending. cf_date (snd kc) = Some (txn_date entry) \<and> cf_kind (snd kc) = ''txn''"
  shows "\<forall>kc \<in> set pending'.
           cf_date (snd kc) = Some (txn_date entry) \<and> cf_kind (snd kc) = ''txn''"
proof -
  let ?c = "case dict_get pending k of None \<Rightarrow> new_txn_cashflow entry | Some c \<Rightarrow> c"
  have c: "cf_date ?c = Some (txn_date entry) \<and> cf_kind ?c = ''txn''"
  proof (cases "dict_get pending k")
    case None
    then show ?thesis by (simp add: new_txn_cashflow_def)
  next
    case (Some c)
    with inv dict_get_in_set [OF Some] show ?thesis by force
  qed
  from r obtain t where "pending' = dict_set k (?c\<lparr>cf_amount := t\<rparr>) pending"
    by (auto simp: pending_add_def Let_def split: sum.splits)
  then have "set pending' \<subseteq> insert (k, ?c\<lparr>cf_amount := t\<rparr>) (set pending)"
    by (simp add: set_dict_set)
  with inv c show ?thesis by auto
qed

lemma add_to_parents_preserves:
  "add_to_parents entry val ks pending = Inr pending'
   \<Longrightarrow> \<forall>kc \<in> set pending. cf_date (snd kc) = Some (txn_date entry) \<and> cf_kind (snd kc) = ''txn''
   \<Longrightarrow> \<forall>kc \<in> set pending'.
           cf_date (snd kc) = Some (txn_date entry) \<and> cf_kind (snd kc) = ''txn''"
proof (induction ks arbitrary: pending)
  case Nil
  then show ?case by simp
next
  case (Cons k ks)
  from Cons.prems(1) obtain p1 where
    p1: "pending_add entry val k pending = Inr p1" and
    rest: "add_to_parents entry val ks p1 = Inr pending'"
    by (auto split: sum.splits)
  from Cons.IH [OF rest pending_add_preserves [OF p1 Cons.prems(2)]] show ?case .
qed

lemma process_posting_preserves:
  assumes "process_posting lib amap cur pm entry p pending = Inr pending'"
    and "\<forall>kc \<in> set pending. cf_date (snd kc) = Some (txn_date entry) \<and> cf_kind (snd kc) = ''txn''"
  shows "\<forall>kc \<in> set pending'. cf_date (snd kc) = Some (txn_date entry) \<and> cf_kind (snd kc) = ''txn''"
proof -
  from assms(1) have "pending' = pending \<or>
      (\<exists>val ks. add_to_parents entry val ks pending = Inr pending')"
    by (auto simp: process_posting_def split: sum.splits option.splits)
  then show ?thesis
    using assms(2) add_to_parents_preserves [OF _ assms(2)] by blast
qed

lemma process_postings_preserves:
  "process_postings lib amap cur pm entry ps pending = Inr pending'
   \<Longrightarrow> \<forall>kc \<in> set pending. cf_date (snd kc) = Some (txn_date entry) \<and> cf_kind (snd kc) = ''txn''
   \<Longrightarrow> \<forall>kc \<in> set pending'. cf_date (snd kc) = Some (txn_date entry) \<and> cf_kind (snd kc) = ''txn''"
proof (induction ps arbitrary: pending)
  case Nil
  then show ?case by simp
next
  case (Cons p ps)
  from Cons.prems(1) obtain pending1 where
    p1: "process_posting lib amap cur pm entry p pending = Inr pending1" and
    rest: "process_postings lib amap cur pm entry ps pending1 = Inr pending'"
    by (auto split: sum.splits)
  from Cons.IH [OF rest process_posting_preserves [OF p1 Cons.prems(2)]] show ?case .
qed

subsection \<open>Emission\<close>

lemma record_flow_accounts_fields:
  "cf_date (record_flow_accounts lib amap a ps c) = cf_date c \<and>
   cf_kind (record_flow_accounts lib amap a ps c) = cf_kind c \<and>
   cf_amount (record_flow_accounts lib amap a ps c) = cf_amount c \<and>
   cf_entry (record_flow_accounts lib amap a ps c) = cf_entry c"
  by (induction ps arbitrary: c) simp_all

lemma bucket_emit_cashflows:
  "emit_cashflows lib amap entry pending m = Inr m'
   \<Longrightarrow> \<forall>kc \<in> set pending. cf_date (snd kc) = Some d \<and> cf_kind (snd kc) = ''txn''
   \<Longrightarrow> \<exists>new. bucket m' a = bucket m a @ new
           \<and> (\<forall>c \<in> set new. cf_date c = Some d \<and> cf_kind c = ''txn'')"
proof (induction pending arbitrary: m)
  case Nil
  then show ?case by simp
next
  case (Cons kc pending)
  obtain k c where kc: "kc = (k, c)" by (cases kc)
  from Cons.prems(1) obtain cents where
    q: "quantize (cf_amount c) = Inr cents" and
    r: "emit_cashflows lib amap entry pending
          (if cents \<noteq> 0
           then append_cashflow m k (record_flow_accounts lib amap k (postings entry) c)
           else m) = Inr m'"
    by (auto simp: kc split: sum.splits)
  let ?m = "if cents \<noteq> 0
            then append_cashflow m k (record_flow_accounts lib amap k (postings entry) c)
            else m"
  from Cons.prems(2) kc have c: "cf_date c = Some d \<and> cf_kind c = ''txn''"
    and rest: "\<forall>kc \<in> set pending. cf_date (snd kc) = Some d \<and> cf_kind (snd kc) = ''txn''" by auto
  from Cons.IH [OF r rest] obtain new where
    new: "bucket m' a = bucket ?m a @ new"
         "\<forall>c \<in> set new. cf_date c = Some d \<and> cf_kind c = ''txn''" by blast
  have "\<exists>new0. bucket ?m a = bucket m a @ new0
          \<and> (\<forall>c \<in> set new0. cf_date c = Some d \<and> cf_kind c = ''txn'')"
    using c by (simp add: bucket_append_cashflow record_flow_accounts_fields)
  then obtain new0 where new0: "bucket ?m a = bucket m a @ new0"
      "\<forall>c \<in> set new0. cf_date c = Some d \<and> cf_kind c = ''txn''" by blast
  have "bucket m' a = bucket m a @ (new0 @ new)"
    using new(1) new0(1) by simp
  moreover have "\<forall>c \<in> set (new0 @ new). cf_date c = Some d \<and> cf_kind c = ''txn''"
    using new(2) new0(2) by auto
  ultimately show ?case by blast
qed


lemma emit_cashflows_no_empty_bucket:
  "emit_cashflows lib amap entry pending m = Inr m' \<Longrightarrow> \<forall>a. m a \<noteq> Some []
   \<Longrightarrow> \<forall>a. m' a \<noteq> Some []"
proof (induction pending arbitrary: m)
  case Nil
  then show ?case by simp
next
  case (Cons kc pending)
  obtain k c where kc: "kc = (k, c)" by (cases kc)
  from Cons.prems(1) obtain cents where
    q: "quantize (cf_amount c) = Inr cents" and
    r: "emit_cashflows lib amap entry pending
          (if cents \<noteq> 0
           then append_cashflow m k (record_flow_accounts lib amap k (postings entry) c)
           else m) = Inr m'"
    by (auto simp: kc split: sum.splits)
  show ?case
    by (rule Cons.IH [OF r]) (simp add: append_cashflow_apply Cons.prems(2))
qed

subsection \<open>The loop over the transactions\<close>

lemma bucket_extract_txn_cashflows:
  "extract_txn_cashflows lib amap start_date end_date cur pm txns m = Inr m'
   \<Longrightarrow> \<exists>new ds. bucket m' a = bucket m a @ new
         \<and> map cf_date new = map Some ds
         \<and> (\<forall>c \<in> set new. cf_kind c = ''txn'')
         \<and> (\<forall>d \<in> set ds. d \<in> txn_date ` set txns
               \<and> (\<forall>s. start_date = Some s \<longrightarrow> s \<le> d)
               \<and> (\<forall>e. end_date = Some e \<longrightarrow> d \<le> e))
         \<and> (sorted (map txn_date txns) \<longrightarrow> sorted ds)"
proof (induction txns arbitrary: m)
  case Nil
  then have "bucket m' a = bucket m a @ []" "map cf_date ([]::Cashflow list) = map Some []"
    by simp_all
  then show ?case by (metis (no_types) empty_iff list.set(1) list.simps(8) sorted_simps(1))
next
  case (Cons entry es)
  let ?skip = "(case start_date of None \<Rightarrow> False | Some s \<Rightarrow> \<not> s \<le> txn_date entry)
               \<or> (case end_date of None \<Rightarrow> False | Some e \<Rightarrow> \<not> txn_date entry \<le> e)"
  show ?case
  proof (cases ?skip)
    case True
    with Cons.prems have "extract_txn_cashflows lib amap start_date end_date cur pm es m = Inr m'"
      by (auto split: if_splits)
    from Cons.IH [OF this] obtain new ds where
      h: "bucket m' a = bucket m a @ new" "map cf_date new = map Some ds"
         "\<forall>c \<in> set new. cf_kind c = ''txn''"
         "\<forall>d \<in> set ds. d \<in> txn_date ` set es
               \<and> (\<forall>s. start_date = Some s \<longrightarrow> s \<le> d)
               \<and> (\<forall>e. end_date = Some e \<longrightarrow> d \<le> e)"
         "sorted (map txn_date es) \<longrightarrow> sorted ds" by blast
    have "\<forall>d \<in> set ds. d \<in> txn_date ` set (entry # es)
               \<and> (\<forall>s. start_date = Some s \<longrightarrow> s \<le> d)
               \<and> (\<forall>e. end_date = Some e \<longrightarrow> d \<le> e)" using h(4) by auto
    moreover have "sorted (map txn_date (entry # es)) \<longrightarrow> sorted ds" using h(5) by simp
    ultimately show ?thesis using h(1,2,3) by blast
  next
    case False
    then have win: "(\<forall>s. start_date = Some s \<longrightarrow> s \<le> txn_date entry)
                  \<and> (\<forall>e. end_date = Some e \<longrightarrow> txn_date entry \<le> e)"
      by (auto split: option.splits)
    from False Cons.prems obtain pending m0 where
      pp: "process_postings lib amap cur pm entry (postings entry) [] = Inr pending" and
      em: "emit_cashflows lib amap entry pending m = Inr m0" and
      rest: "extract_txn_cashflows lib amap start_date end_date cur pm es m0 = Inr m'"
      by (auto split: if_splits sum.splits option.splits)
    have inv: "\<forall>kc \<in> set pending. cf_date (snd kc) = Some (txn_date entry) \<and> cf_kind (snd kc) = ''txn''"
      using process_postings_preserves [OF pp] by simp
    from bucket_emit_cashflows [OF em inv, of a] obtain new0 where
      new0: "bucket m0 a = bucket m a @ new0"
            "\<forall>c \<in> set new0. cf_date c = Some (txn_date entry) \<and> cf_kind c = ''txn''" by blast
    from Cons.IH [OF rest] obtain new ds where
      h: "bucket m' a = bucket m0 a @ new"
         "map cf_date new = map Some ds"
         "\<forall>c \<in> set new. cf_kind c = ''txn''"
         "\<forall>d \<in> set ds. d \<in> txn_date ` set es
               \<and> (\<forall>s. start_date = Some s \<longrightarrow> s \<le> d)
               \<and> (\<forall>e. end_date = Some e \<longrightarrow> d \<le> e)"
         "sorted (map txn_date es) \<longrightarrow> sorted ds" by blast
    let ?ds0 = "replicate (length new0) (txn_date entry)"
    have d0: "map cf_date new0 = map Some ?ds0"
      using new0(2) by (induction new0) auto
    have 1: "bucket m' a = bucket m a @ (new0 @ new)" using h(1) new0(1) by simp
    have 2: "map cf_date (new0 @ new) = map Some (?ds0 @ ds)" using d0 h(2) by simp
    have 3: "\<forall>c \<in> set (new0 @ new). cf_kind c = ''txn''" using new0(2) h(3) by auto
    have 4: "\<forall>d \<in> set (?ds0 @ ds). d \<in> txn_date ` set (entry # es)
               \<and> (\<forall>s. start_date = Some s \<longrightarrow> s \<le> d)
               \<and> (\<forall>e. end_date = Some e \<longrightarrow> d \<le> e)" using h(4) win by auto
    have 5: "sorted (map txn_date (entry # es)) \<longrightarrow> sorted (?ds0 @ ds)"
    proof
      assume s: "sorted (map txn_date (entry # es))"
      then have "sorted ds" using h(5) by simp
      moreover have "\<forall>d \<in> set ds. txn_date entry \<le> d" using s h(4) by auto
      ultimately show "sorted (?ds0 @ ds)" by (auto simp: sorted_append)
    qed
    from 1 2 3 4 5 show ?thesis by blast
  qed
qed

subsection \<open>Whole extraction\<close>

lemma market_values_cutoff:
  "get_market_values_by_asset_account lib entries amap (Some d) pm cur =
   get_market_values_by_asset_account lib (filter (\<lambda>e. entry_date e < d) entries) amap None pm cur"
  by (simp add: get_market_values_by_asset_account_def)

lemma ending_cutoff_Inr:
  "ending_cutoff end_date = Inr cutoff \<Longrightarrow> cutoff = map_option (\<lambda>e. e + 1) end_date"
  by (auto simp: ending_cutoff_def next_day_def split: option.splits if_splits)

lemma extraction_phases:
  assumes "get_cashflows_by_asset_account lib entries asset_account_map start_date end_date cur
             = Inr m"
  shows "\<exists>m1 sv cutoff ev.
      extract_txn_cashflows lib (dict_of asset_account_map []) start_date end_date cur
        (build_price_map lib entries) (filter_txns entries) Map.empty = Inr m1
    \<and> (case start_date of
          None \<Rightarrow> sv = []
        | Some s \<Rightarrow>
            get_market_values_by_asset_account lib entries (dict_of asset_account_map [])
              (Some s) (build_price_map lib entries) cur = Inr sv)
    \<and> ending_cutoff end_date = Inr cutoff
    \<and> get_market_values_by_asset_account lib entries (dict_of asset_account_map [])
          cutoff (build_price_map lib entries) cur = Inr ev
    \<and> distinct (map fst sv) \<and> distinct (map fst ev)
    \<and> (\<forall>a. m a =
          (case dict_get ev a of
             None \<Rightarrow>
               (case dict_get sv a of
                  None \<Rightarrow> m1 a
                | Some v \<Rightarrow> Some (starting_balance (the start_date) v # bucket m1 a))
           | Some w \<Rightarrow>
               Some ((case dict_get sv a of
                        None \<Rightarrow> []
                      | Some v \<Rightarrow> [starting_balance (the start_date) v])
                     @ bucket m1 a @ [ending_balance end_date (- w)])))"
proof -
  let ?amap = "dict_of asset_account_map []"
  let ?pm = "build_price_map lib entries"
  from assms obtain m1 m2 cutoff ev where
    m1: "extract_txn_cashflows lib ?amap start_date end_date cur ?pm (filter_txns entries)
           Map.empty = Inr m1" and
    m2: "(case start_date of
            None \<Rightarrow> Inr m1
          | Some s \<Rightarrow>
              (case get_market_values_by_asset_account lib entries ?amap (Some s) ?pm cur of
                 Inl e \<Rightarrow> Inl e
               | Inr mvs \<Rightarrow> Inr (insert_starting_balances s mvs m1))) = Inr m2" and
    cut: "ending_cutoff end_date = Inr cutoff" and
    ev: "get_market_values_by_asset_account lib entries ?amap cutoff ?pm cur = Inr ev" and
    m: "append_ending_balances end_date ev m2 = Inr m"
    unfolding get_cashflows_by_asset_account_def Let_def
    by (auto split: sum.splits)
  have dev: "distinct (map fst ev)" using ev by (rule distinct_get_market_values)
  have "\<exists>sv. (case start_date of
                None \<Rightarrow> sv = []
              | Some s \<Rightarrow>
                  get_market_values_by_asset_account lib entries ?amap (Some s) ?pm cur = Inr sv)
           \<and> distinct (map fst sv)
           \<and> (\<forall>a. m2 a = (case dict_get sv a of
                             None \<Rightarrow> m1 a
                           | Some v \<Rightarrow> Some (starting_balance (the start_date) v # bucket m1 a)))"
  proof (cases start_date)
    case None
    with m2 have "m2 = m1" by simp
    with None show ?thesis by (intro exI [of _ "[]"]) simp
  next
    case (Some s)
    with m2 obtain sv where
      sv: "get_market_values_by_asset_account lib entries ?amap (Some s) ?pm cur = Inr sv" and
      m2': "m2 = insert_starting_balances s sv m1"
      by (auto split: sum.splits)
    have dsv: "distinct (map fst sv)" using sv by (rule distinct_get_market_values)
    show ?thesis
      using Some sv dsv m2'
      by (intro exI [of _ sv])
         (simp add: insert_starting_balances_apply dict_get_map_of split: option.splits)
  qed
  then obtain sv where
    sv: "case start_date of
           None \<Rightarrow> sv = []
         | Some s \<Rightarrow>
             get_market_values_by_asset_account lib entries ?amap (Some s) ?pm cur = Inr sv" and
    dsv: "distinct (map fst sv)" and
    m2a: "\<forall>a. m2 a = (case dict_get sv a of
                        None \<Rightarrow> m1 a
                      | Some v \<Rightarrow> Some (starting_balance (the start_date) v # bucket m1 a))"
    by blast
  from append_ending_balances_apply [OF dev market_values_negation [OF ev], of end_date m2] m
  have ma: "\<forall>a. m a =
            (case map_of ev a of
               None \<Rightarrow> m2 a
             | Some v \<Rightarrow> Some (bucket m2 a @ [ending_balance end_date (- v)]))"
    by auto
  have "\<forall>a. m a =
          (case dict_get ev a of
             None \<Rightarrow>
               (case dict_get sv a of
                  None \<Rightarrow> m1 a
                | Some v \<Rightarrow> Some (starting_balance (the start_date) v # bucket m1 a))
           | Some w \<Rightarrow>
               Some ((case dict_get sv a of
                        None \<Rightarrow> []
                      | Some v \<Rightarrow> [starting_balance (the start_date) v])
                     @ bucket m1 a @ [ending_balance end_date (- w)]))"
    using m2a
    by (simp add: ma dict_get_map_of bucket_def split: option.splits)
  with m1 sv cut ev dsv dev show ?thesis by blast
qed

lemma sorted_filter_txns:
  "sorted (map entry_date entries) \<Longrightarrow> sorted (map txn_date (filter_txns entries))"
proof (induction entries rule: filter_txns.induct)
  case 1
  then show ?case by simp
next
  case (2 t es)
  have "txn_date ` set (filter_txns es) \<subseteq> entry_date ` set es"
    by (induction es rule: filter_txns.induct) auto
  with 2 show ?case by auto
next
  case (3 d es)
  then show ?case by simp
qed

lemma bucket_empty: "bucket Map.empty a = []"
  by (simp add: bucket_def)

lemma extract_no_empty_bucket:
  "extract_txn_cashflows lib amap start_date end_date cur pm txns m = Inr m'
   \<Longrightarrow> \<forall>a. m a \<noteq> Some [] \<Longrightarrow> \<forall>a. m' a \<noteq> Some []"
proof (induction txns arbitrary: m)
  case Nil
  then show ?case by simp
next
  case (Cons entry es)
  from Cons.prems(1) consider
      "extract_txn_cashflows lib amap start_date end_date cur pm es m = Inr m'"
    | pending m0 where
      "emit_cashflows lib amap entry pending m = Inr m0"
      "extract_txn_cashflows lib amap start_date end_date cur pm es m0 = Inr m'"
    by (auto split: if_splits sum.splits)
  then show ?case
  proof cases
    case 1
    from Cons.IH [OF 1 Cons.prems(2)] show ?thesis .
  next
    case 2
    from Cons.IH [OF 2(2) emit_cashflows_no_empty_bucket [OF 2(1) Cons.prems(2)]]
    show ?thesis .
  qed
qed

subsection \<open>Pending totals\<close>

lemma parents_length: "x \<in> set (parents name) \<Longrightarrow> length x \<le> length name"
proof (induction name rule: parents.induct)
  case (1 name)
  show ?case
  proof (cases "name = []")
    case True
    with "1.prems" show ?thesis by (simp add: parents.simps)
  next
    case False
    with "1.prems" have "x = name \<or> x \<in> set (parents (parent name))"
      by (subst (asm) parents.simps) simp
    then show ?thesis
    proof
      assume "x = name"
      then show ?thesis by simp
    next
      assume "x \<in> set (parents (parent name))"
      from "1.IH" [OF False this] have "length x \<le> length (parent name)" .
      moreover have "length (dropWhile (\<lambda>c. c \<noteq> CHR '':'') (rev name)) \<le> length (rev name)"
        by (rule length_dropWhile_le)
      then have "length (parent name) \<le> length name" by (simp add: parent_def)
      ultimately show ?thesis by simp
    qed
  qed
qed

lemma length_parent: "name \<noteq> [] \<Longrightarrow> length (parent name) < length name"
proof -
  assume ne: "name \<noteq> []"
  have "length (dropWhile (\<lambda>c. c \<noteq> CHR '':'') (rev name)) \<le> length (rev name)"
    by (rule length_dropWhile_le)
  with ne show ?thesis by (cases name) (simp_all add: parent_def)
qed

lemma distinct_parents: "distinct (parents name)"
proof (induction name rule: parents.induct)
  case (1 name)
  show ?case
  proof (cases "name = []")
    case True
    then show ?thesis by (simp add: parents.simps)
  next
    case False
    have "name \<notin> set (parents (parent name))"
    proof
      assume "name \<in> set (parents (parent name))"
      from parents_length [OF this] length_parent [OF False] show False by simp
    qed
    with "1.IH" [OF False] False show ?thesis by (subst parents.simps) simp
  qed
qed

lemma self_in_parents: "name \<noteq> [] \<Longrightarrow> name \<in> set (parents name)"
  by (subst parents.simps) simp

lemma pending_add_amount:
  assumes "decimal_add (pending_amount pending k) val = Inr t"
  shows "\<exists>pending'.
      pending_add entry val k pending = Inr pending'
    \<and> (\<forall>a. pending_amount pending' a = (if a = k then t else pending_amount pending a))
    \<and> (distinct (map fst pending) \<longrightarrow> distinct (map fst pending'))"
proof -
  let ?c = "case dict_get pending k of None \<Rightarrow> new_txn_cashflow entry | Some c \<Rightarrow> c"
  have "cf_amount ?c = pending_amount pending k"
    by (simp add: pending_amount_def new_txn_cashflow_def split: option.splits)
  with assms have r: "pending_add entry val k pending
                        = Inr (dict_set k (?c\<lparr>cf_amount := t\<rparr>) pending)"
    by (simp add: pending_add_def Let_def)
  have "\<forall>a. pending_amount (dict_set k (?c\<lparr>cf_amount := t\<rparr>) pending) a
               = (if a = k then t else pending_amount pending a)"
    by (simp add: pending_amount_def dict_get_dict_set)
  with r show ?thesis by (simp add: distinct_dict_set)
qed



lemma add_to_parents_amounts:
  "distinct ks
   \<Longrightarrow> \<forall>a \<in> set ks. \<exists>t. decimal_add (pending_amount pending a) val = Inr t
   \<Longrightarrow> \<exists>pending'.
         add_to_parents entry val ks pending = Inr pending'
       \<and> (\<forall>a \<in> set ks. decimal_add (pending_amount pending a) val
                           = Inr (pending_amount pending' a))
       \<and> (\<forall>a. a \<notin> set ks \<longrightarrow> pending_amount pending' a = pending_amount pending a)
       \<and> (distinct (map fst pending) \<longrightarrow> distinct (map fst pending'))"
proof (induction ks arbitrary: pending)
  case Nil
  then show ?case by simp
next
  case (Cons k ks)
  from Cons.prems(2) obtain t where t: "decimal_add (pending_amount pending k) val = Inr t"
    by auto
  from pending_add_amount [OF t, of entry] obtain p1 where
    p1: "pending_add entry val k pending = Inr p1" and
    a1: "\<forall>a. pending_amount p1 a = (if a = k then t else pending_amount pending a)" and
    d1: "distinct (map fst pending) \<longrightarrow> distinct (map fst p1)" by blast
  from Cons.prems(1) have k: "k \<notin> set ks" and dks: "distinct ks" by simp_all
  have "\<forall>a \<in> set ks. \<exists>t. decimal_add (pending_amount p1 a) val = Inr t"
  proof
    fix a assume a: "a \<in> set ks"
    with k have "a \<noteq> k" by auto
    with a1 have "pending_amount p1 a = pending_amount pending a" by simp
    with Cons.prems(2) a show "\<exists>t. decimal_add (pending_amount p1 a) val = Inr t" by simp
  qed
  from Cons.IH [OF dks this] obtain pending' where
    r: "add_to_parents entry val ks p1 = Inr pending'" and
    inside: "\<forall>a \<in> set ks. decimal_add (pending_amount p1 a) val
                             = Inr (pending_amount pending' a)" and
    outside: "\<forall>a. a \<notin> set ks \<longrightarrow> pending_amount pending' a = pending_amount p1 a" and
    d: "distinct (map fst p1) \<longrightarrow> distinct (map fst pending')" by blast
  have 1: "add_to_parents entry val (k # ks) pending = Inr pending'"
    using p1 r by simp
  have 2: "\<forall>a \<in> set (k # ks). decimal_add (pending_amount pending a) val
                                 = Inr (pending_amount pending' a)"
  proof
    fix a assume a: "a \<in> set (k # ks)"
    show "decimal_add (pending_amount pending a) val = Inr (pending_amount pending' a)"
    proof (cases "a = k")
      case True
      with k outside a1 have "pending_amount pending' a = t" by simp
      with t True show ?thesis by simp
    next
      case False
      with a have "a \<in> set ks" by simp
      with inside have "decimal_add (pending_amount p1 a) val = Inr (pending_amount pending' a)"
        by simp
      with a1 False show ?thesis by simp
    qed
  qed
  have 3: "\<forall>a. a \<notin> set (k # ks) \<longrightarrow> pending_amount pending' a = pending_amount pending a"
    using outside a1 by simp
  from 1 2 3 d1 d show ?case by blast
qed

lemma process_posting_resolved:
  assumes "get_asset_account (re_subn lib) (account posting) amap = Some A"
    and "get_number (convert_amount lib (get_weight lib posting) cur pm (txn_date entry)) cur
           = Inr val"
  shows "process_posting lib amap cur pm entry posting pending
           = add_to_parents entry val (parents A) pending"
  using assms by (simp add: process_posting_def)

lemma process_postings_same_bucket:
  "\<forall>p \<in> set ps. get_asset_account (re_subn lib) (account p) amap = Some A
   \<Longrightarrow> \<forall>p \<in> set ps. currency (convert_amount lib (get_weight lib p) cur pm (txn_date entry)) = cur
   \<Longrightarrow> distinct (map fst pending)
   \<Longrightarrow> \<forall>a \<in> set (parents A). pending_amount pending a = t
   \<Longrightarrow> decimal_sum t (map (\<lambda>p. number (convert_amount lib (get_weight lib p) cur pm
                                         (txn_date entry))) ps) = Inr r
   \<Longrightarrow> \<exists>pending'.
         process_postings lib amap cur pm entry ps pending = Inr pending'
       \<and> distinct (map fst pending')
       \<and> (\<forall>a. pending_amount pending' a =
               (if a \<in> set (parents A) then r else pending_amount pending a))"
proof (induction ps arbitrary: pending t)
  case Nil
  then show ?case by simp
next
  case (Cons p ps)
  let ?v = "number (convert_amount lib (get_weight lib p) cur pm (txn_date entry))"
  from Cons.prems(5) obtain t1 where
    t1: "decimal_add t ?v = Inr t1" and
    sum: "decimal_sum t1 (map (\<lambda>p. number (convert_amount lib (get_weight lib p) cur pm
                                        (txn_date entry))) ps) = Inr r"
    by (auto split: sum.splits)
  from Cons.prems(4) t1 have
    "\<forall>a \<in> set (parents A). \<exists>u. decimal_add (pending_amount pending a) ?v = Inr u" by simp
  from add_to_parents_amounts [OF distinct_parents this, of entry] obtain p1 where
    p1: "add_to_parents entry ?v (parents A) pending = Inr p1" and
    inside: "\<forall>a \<in> set (parents A). decimal_add (pending_amount pending a) ?v
                                       = Inr (pending_amount p1 a)" and
    outside: "\<forall>a. a \<notin> set (parents A) \<longrightarrow> pending_amount p1 a = pending_amount pending a" and
    d1: "distinct (map fst pending) \<longrightarrow> distinct (map fst p1)" by blast
  from Cons.prems(2) have
    "get_number (convert_amount lib (get_weight lib p) cur pm (txn_date entry)) cur = Inr ?v"
    by (simp add: get_number_def)
  with Cons.prems(1) p1 have step: "process_posting lib amap cur pm entry p pending = Inr p1"
    by (simp add: process_posting_resolved)
  from Cons.prems(3) d1 have dp1: "distinct (map fst p1)" by simp
  have t1': "\<forall>a \<in> set (parents A). pending_amount p1 a = t1"
    using inside Cons.prems(4) t1 by simp
  from Cons.prems(1,2) have
    "\<forall>p \<in> set ps. get_asset_account (re_subn lib) (account p) amap = Some A"
    "\<forall>p \<in> set ps. currency (convert_amount lib (get_weight lib p) cur pm (txn_date entry)) = cur"
    by simp_all
  from Cons.IH [OF this dp1 t1' sum] obtain pending' where
    r: "process_postings lib amap cur pm entry ps p1 = Inr pending'" and
    d: "distinct (map fst pending')" and
    amt: "\<forall>a. pending_amount pending' a =
               (if a \<in> set (parents A) then r else pending_amount p1 a)"
    by blast
  have "process_postings lib amap cur pm entry (p # ps) pending = Inr pending'"
    using step r by simp
  moreover have "\<forall>a. pending_amount pending' a =
               (if a \<in> set (parents A) then r else pending_amount pending a)"
    using amt outside by simp
  ultimately show ?case using d by blast
qed

lemma emit_cashflows_all_zero:
  "\<forall>kc \<in> set pending. quantize (cf_amount (snd kc)) = Inr 0
   \<Longrightarrow> emit_cashflows lib amap entry pending m = Inr m"
  by (induction pending arbitrary: m) auto

subsection \<open>Currency checks\<close>
















subsection \<open>Accounts that no rule resolves\<close>

lemma dict_set_fresh: "k \<notin> set (map fst d) \<Longrightarrow> dict_set k v d = d @ [(k, v)]"
  by (induction d) auto

lemma dict_of_distinct: "distinct (map fst (d @ kvs)) \<Longrightarrow> dict_of kvs d = d @ kvs"
proof (induction kvs arbitrary: d)
  case Nil
  then show ?case by simp
next
  case (Cons kv kvs)
  obtain k v where kv: "kv = (k, v)" by (cases kv)
  from Cons.prems kv have fresh: "k \<notin> set (map fst d)" by auto
  from Cons.prems kv have "distinct (map fst ((d @ [(k, v)]) @ kvs))" by simp
  from Cons.IH [OF this] fresh show ?case by (simp add: kv dict_set_fresh)
qed

lemma distinct_dict_of: "distinct (map fst d) \<Longrightarrow> distinct (map fst (dict_of kvs d))"
proof (induction kvs arbitrary: d)
  case Nil
  then show ?case by simp
next
  case (Cons kv kvs)
  obtain k v where kv: "kv = (k, v)" by (cases kv)
  from Cons.IH [OF distinct_dict_set [OF Cons.prems, of k v]] show ?case by (simp add: kv)
qed

lemma dict_of_idem: "dict_of (dict_of kvs []) [] = dict_of kvs []"
  using dict_of_distinct [of "[]" "dict_of kvs []"] distinct_dict_of [of "[]" kvs] by simp

lemma process_postings_unresolved:
  "\<forall>p \<in> set ps. get_asset_account (re_subn lib) (account p) amap = None
   \<Longrightarrow> process_postings lib amap cur pm entry ps pending = Inr pending'
   \<Longrightarrow> pending' = pending"
proof (induction ps arbitrary: pending)
  case Nil
  then show ?case by simp
next
  case (Cons p ps)
  from Cons.prems have "process_posting lib amap cur pm entry p pending = Inr pending"
    by (auto simp: process_posting_def split: sum.splits)
  with Cons show ?case by simp
qed

lemma extract_unresolved:
  "\<forall>t \<in> set txns.
      (\<forall>s. start_date = Some s \<longrightarrow> s \<le> txn_date t)
    \<and> (\<forall>e. end_date = Some e \<longrightarrow> txn_date t \<le> e)
    \<longrightarrow> (\<forall>p \<in> set (postings t). get_asset_account (re_subn lib) (account p) amap = None)
   \<Longrightarrow> extract_txn_cashflows lib amap start_date end_date cur pm txns m = Inr m'
   \<Longrightarrow> m' = m"
proof (induction txns arbitrary: m)
  case Nil
  then show ?case by simp
next
  case (Cons entry es)
  from Cons.prems(1) have rest: "\<forall>t \<in> set es.
      (\<forall>s. start_date = Some s \<longrightarrow> s \<le> txn_date t)
    \<and> (\<forall>e. end_date = Some e \<longrightarrow> txn_date t \<le> e)
    \<longrightarrow> (\<forall>p \<in> set (postings t). get_asset_account (re_subn lib) (account p) amap = None)"
    by simp
  let ?skip = "(case start_date of None \<Rightarrow> False | Some s \<Rightarrow> \<not> s \<le> txn_date entry)
               \<or> (case end_date of None \<Rightarrow> False | Some e \<Rightarrow> \<not> txn_date entry \<le> e)"
  show ?case
  proof (cases ?skip)
    case True
    with Cons.prems(2) have "extract_txn_cashflows lib amap start_date end_date cur pm es m = Inr m'"
      by (auto split: if_splits)
    from Cons.IH [OF rest this] show ?thesis .
  next
    case False
    then have "(\<forall>s. start_date = Some s \<longrightarrow> s \<le> txn_date entry)
             \<and> (\<forall>e. end_date = Some e \<longrightarrow> txn_date entry \<le> e)"
      by (auto split: option.splits)
    with Cons.prems(1) have none:
      "\<forall>p \<in> set (postings entry). get_asset_account (re_subn lib) (account p) amap = None"
      by simp
    from False Cons.prems(2) obtain pending m0 where
      pp: "process_postings lib amap cur pm entry (postings entry) [] = Inr pending" and
      em: "emit_cashflows lib amap entry pending m = Inr m0" and
      r: "extract_txn_cashflows lib amap start_date end_date cur pm es m0 = Inr m'"
      by (auto split: if_splits sum.splits)
    from process_postings_unresolved [OF none pp] have "pending = []" .
    with em have "m0 = m" by simp
    with r have "extract_txn_cashflows lib amap start_date end_date cur pm es m = Inr m'" by simp
    from Cons.IH [OF rest this] show ?thesis .
  qed
qed

section \<open>Properties\<close>

text \<open>
  Claim C1. Whenever \<open>get_cashflows_by_asset_account\<close> returns a mapping, the list of
  every bucket is made of three parts in this order. First the starting-balance
  cashflow: kind \<open>starting balance\<close>, dated \<open>s\<close>, amount \<open>v\<close>, no accounts and no
  entry; it is present only when \<open>start_date_inclusive\<close> is supplied as \<open>s\<close> and the
  bucket has the entry \<open>v\<close> in the market values computed from the entries dated
  strictly before \<open>s\<close>. Then the cashflows \<open>m1\<close> of the loop over the transactions,
  all of kind \<open>txn\<close>. Last the ending-balance cashflow: kind \<open>ending balance\<close>, dated
  \<open>end_date_inclusive\<close>, amount \<open>- w\<close>, for every bucket with an entry \<open>w\<close> in the
  market values computed from the entries dated before \<open>end_date_inclusive + 1\<close>, or
  from all entries when there is no end date; this part does not depend on whether a
  start or an end is supplied. The negation is exact: a market value is the result of
  a \<open>Decimal\<close> addition and has at most 28 digits.
\<close>

theorem boundary_cashflows:
  assumes "get_cashflows_by_asset_account lib entries asset_account_map start_date_inclusive
             end_date_inclusive cur = Inr m"
  shows "\<exists>m1 sv ev.
      extract_txn_cashflows lib (dict_of asset_account_map []) start_date_inclusive
        end_date_inclusive cur (build_price_map lib entries) (filter_txns entries) Map.empty
        = Inr m1
    \<and> (case start_date_inclusive of
          None \<Rightarrow> sv = []
        | Some s \<Rightarrow>
            get_market_values_by_asset_account lib (filter (\<lambda>e. entry_date e < s) entries)
              (dict_of asset_account_map []) None (build_price_map lib entries) cur = Inr sv)
    \<and> get_market_values_by_asset_account lib
          (case end_date_inclusive of
             None \<Rightarrow> entries
           | Some e \<Rightarrow> filter (\<lambda>x. entry_date x < e + 1) entries)
          (dict_of asset_account_map []) None (build_price_map lib entries) cur = Inr ev
    \<and> (\<forall>a. bucket m a =
          (case start_date_inclusive of
             None \<Rightarrow> []
           | Some s \<Rightarrow>
               (case dict_get sv a of
                  None \<Rightarrow> []
                | Some v \<Rightarrow>
                    [\<lparr>cf_date = Some s, cf_amount = v, cf_kind = ''starting balance'',
                      inflow_accounts = {}, outflow_accounts = {}, cf_entry = None\<rparr>]))
          @ bucket m1 a
          @ (case dict_get ev a of
               None \<Rightarrow> []
             | Some w \<Rightarrow>
                 [\<lparr>cf_date = end_date_inclusive, cf_amount = - w, cf_kind = ''ending balance'',
                   inflow_accounts = {}, outflow_accounts = {}, cf_entry = None\<rparr>]))
    \<and> (\<forall>a. (a \<in> dom m) = (a \<in> dom m1 \<or> dict_get sv a \<noteq> None \<or> dict_get ev a \<noteq> None))
    \<and> (\<forall>a c. c \<in> set (bucket m1 a) \<longrightarrow> cf_kind c = ''txn'')"
proof -
  let ?amap = "dict_of asset_account_map []"
  let ?pm = "build_price_map lib entries"
  from extraction_phases [OF assms] obtain m1 sv cutoff ev where
    m1: "extract_txn_cashflows lib ?amap start_date_inclusive end_date_inclusive cur ?pm
           (filter_txns entries) Map.empty = Inr m1" and
    sv: "case start_date_inclusive of
           None \<Rightarrow> sv = []
         | Some s \<Rightarrow>
             get_market_values_by_asset_account lib entries ?amap (Some s) ?pm cur = Inr sv" and
    cut: "ending_cutoff end_date_inclusive = Inr cutoff" and
    ev: "get_market_values_by_asset_account lib entries ?amap cutoff ?pm cur = Inr ev" and
    m: "\<forall>a. m a =
          (case dict_get ev a of
             None \<Rightarrow>
               (case dict_get sv a of
                  None \<Rightarrow> m1 a
                | Some v \<Rightarrow> Some (starting_balance (the start_date_inclusive) v # bucket m1 a))
           | Some w \<Rightarrow>
               Some ((case dict_get sv a of
                        None \<Rightarrow> []
                      | Some v \<Rightarrow> [starting_balance (the start_date_inclusive) v])
                     @ bucket m1 a @ [ending_balance end_date_inclusive (- w)]))"
    by blast
  have sv': "case start_date_inclusive of
          None \<Rightarrow> sv = []
        | Some s \<Rightarrow>
            get_market_values_by_asset_account lib (filter (\<lambda>e. entry_date e < s) entries)
              ?amap None ?pm cur = Inr sv"
    using sv by (simp add: market_values_cutoff split: option.splits)
  have ev': "get_market_values_by_asset_account lib
          (case end_date_inclusive of
             None \<Rightarrow> entries
           | Some e \<Rightarrow> filter (\<lambda>x. entry_date x < e + 1) entries)
          ?amap None ?pm cur = Inr ev"
  proof (cases end_date_inclusive)
    case None
    with ending_cutoff_Inr [OF cut] ev show ?thesis by simp
  next
    case (Some e)
    with ending_cutoff_Inr [OF cut] have "cutoff = Some (e + 1)" by simp
    with ev have "get_market_values_by_asset_account lib entries ?amap (Some (e + 1)) ?pm cur
                    = Inr ev" by simp
    then have "get_market_values_by_asset_account lib
                 (filter (\<lambda>x. entry_date x < e + 1) entries) ?amap None ?pm cur = Inr ev"
      by (simp only: market_values_cutoff)
    with Some show ?thesis by (simp only: option.case)
  qed
  have b: "\<forall>a. bucket m a =
          (case start_date_inclusive of
             None \<Rightarrow> []
           | Some s \<Rightarrow>
               (case dict_get sv a of
                  None \<Rightarrow> []
                | Some v \<Rightarrow>
                    [\<lparr>cf_date = Some s, cf_amount = v, cf_kind = ''starting balance'',
                      inflow_accounts = {}, outflow_accounts = {}, cf_entry = None\<rparr>]))
          @ bucket m1 a
          @ (case dict_get ev a of
               None \<Rightarrow> []
             | Some w \<Rightarrow>
                 [\<lparr>cf_date = end_date_inclusive, cf_amount = - w, cf_kind = ''ending balance'',
                   inflow_accounts = {}, outflow_accounts = {}, cf_entry = None\<rparr>])"
    using m sv
    by (auto simp: bucket_def starting_balance_def ending_balance_def split: option.splits)
  have d: "\<forall>a. (a \<in> dom m) = (a \<in> dom m1 \<or> dict_get sv a \<noteq> None \<or> dict_get ev a \<noteq> None)"
    using m by (auto simp: dom_def split: option.splits)
  have k: "\<forall>a c. c \<in> set (bucket m1 a) \<longrightarrow> cf_kind c = ''txn''"
  proof (intro allI impI)
    fix a c
    assume c: "c \<in> set (bucket m1 a)"
    from bucket_extract_txn_cashflows [OF m1, of a] obtain new where
      "bucket m1 a = bucket Map.empty a @ new" "\<forall>c \<in> set new. cf_kind c = ''txn''" by blast
    with c show "cf_kind c = ''txn''" by (simp add: bucket_empty)
  qed
  from m1 sv' ev' b d k show ?thesis by blast
qed

theorem boundary_cashflows_witness:
  "\<exists>m m1.
      get_cashflows_by_asset_account plain_ledger cash_ledger cash_rules (Some 5) (Some 20)
        ''USD'' = Inr m
    \<and> extract_txn_cashflows plain_ledger (dict_of cash_rules []) (Some 5) (Some 20) ''USD''
        (build_price_map plain_ledger cash_ledger) (filter_txns cash_ledger) Map.empty = Inr m1
    \<and> bucket m ''Assets:Cash'' =
        [\<lparr>cf_date = Some 5, cf_amount = - 50, cf_kind = ''starting balance'',
          inflow_accounts = {}, outflow_accounts = {}, cf_entry = None\<rparr>]
        @ bucket m1 ''Assets:Cash''
        @ [\<lparr>cf_date = Some 20, cf_amount = 30, cf_kind = ''ending balance'',
            inflow_accounts = {}, outflow_accounts = {}, cf_entry = None\<rparr>]"
proof -
  let ?r = "get_cashflows_by_asset_account plain_ledger cash_ledger cash_rules (Some 5)
              (Some 20) ''USD''"
  have "\<not> isl ?r" by code_simp
  then have r: "?r = Inr (projr ?r)" by simp
  have sv: "get_market_values_by_asset_account plain_ledger
              (filter (\<lambda>e. entry_date e < 5) cash_ledger) (dict_of cash_rules []) None
              (build_price_map plain_ledger cash_ledger) ''USD'' = Inr [(''Assets:Cash'', - 50)]"
    by code_simp
  have ev: "get_market_values_by_asset_account plain_ledger
              (case Some (20::int) of None \<Rightarrow> cash_ledger
               | Some e \<Rightarrow> filter (\<lambda>x. entry_date x < e + 1) cash_ledger)
              (dict_of cash_rules []) None
              (build_price_map plain_ledger cash_ledger) ''USD'' = Inr [(''Assets:Cash'', - 30)]"
    by code_simp
  from boundary_cashflows [OF r] obtain m1 sv' ev' where
    m1: "extract_txn_cashflows plain_ledger (dict_of cash_rules []) (Some 5) (Some 20) ''USD''
        (build_price_map plain_ledger cash_ledger) (filter_txns cash_ledger) Map.empty = Inr m1"
    and sv': "get_market_values_by_asset_account plain_ledger
              (filter (\<lambda>e. entry_date e < 5) cash_ledger) (dict_of cash_rules []) None
              (build_price_map plain_ledger cash_ledger) ''USD'' = Inr sv'"
    and ev': "get_market_values_by_asset_account plain_ledger
              (case Some (20::int) of None \<Rightarrow> cash_ledger
               | Some e \<Rightarrow> filter (\<lambda>x. entry_date x < e + 1) cash_ledger)
              (dict_of cash_rules []) None
              (build_price_map plain_ledger cash_ledger) ''USD'' = Inr ev'"
    and b: "\<forall>a. bucket (projr ?r) a =
          (case Some (5::int) of
             None \<Rightarrow> []
           | Some s \<Rightarrow>
               (case dict_get sv' a of
                  None \<Rightarrow> []
                | Some v \<Rightarrow>
                    [\<lparr>cf_date = Some s, cf_amount = v, cf_kind = ''starting balance'',
                      inflow_accounts = {}, outflow_accounts = {}, cf_entry = None\<rparr>]))
          @ bucket m1 a
          @ (case dict_get ev' a of
               None \<Rightarrow> []
             | Some w \<Rightarrow>
                 [\<lparr>cf_date = Some 20, cf_amount = - w, cf_kind = ''ending balance'',
                   inflow_accounts = {}, outflow_accounts = {}, cf_entry = None\<rparr>])"
    by auto
  from sv sv' have "sv' = [(''Assets:Cash'', - 50)]" by simp
  moreover from ev ev' have "ev' = [(''Assets:Cash'', - 30)]" by simp
  ultimately have "bucket (projr ?r) ''Assets:Cash'' =
        [\<lparr>cf_date = Some 5, cf_amount = - 50, cf_kind = ''starting balance'',
          inflow_accounts = {}, outflow_accounts = {}, cf_entry = None\<rparr>]
        @ bucket m1 ''Assets:Cash''
        @ [\<lparr>cf_date = Some 20, cf_amount = 30, cf_kind = ''ending balance'',
            inflow_accounts = {}, outflow_accounts = {}, cf_entry = None\<rparr>]"
    using b [rule_format, of "''Assets:Cash''"] by simp
  with r m1 show ?thesis by blast
qed

text \<open>
  Claim C2, amended. For every mapping returned by \<open>get_cashflows_by_asset_account\<close>:
  when \<open>start_date_inclusive\<close> is supplied, every bucket with an entry in the starting
  market values has as its first cashflow the one of kind \<open>starting balance\<close>, dated
  \<open>start_date_inclusive\<close>, whose amount is that market value (of either sign); and
  every bucket with an entry in the ending market values has as its last cashflow the
  one of kind \<open>ending balance\<close>, dated \<open>end_date_inclusive\<close>, whose amount is the
  negation of that market value. A bucket without an entry in the starting market
  values holds no cashflow of kind \<open>starting balance\<close>, and a bucket without an entry
  in the ending market values holds none of kind \<open>ending balance\<close>.
\<close>

theorem boundary_first_and_last:
  assumes "get_cashflows_by_asset_account lib entries asset_account_map start_date_inclusive
             end_date_inclusive cur = Inr m"
  shows "(\<forall>s sv a v.
            start_date_inclusive = Some s
          \<and> get_market_values_by_asset_account lib entries (dict_of asset_account_map [])
               (Some s) (build_price_map lib entries) cur = Inr sv
          \<and> dict_get sv a = Some v
          \<longrightarrow> (\<exists>rest. m a =
                Some (\<lparr>cf_date = Some s, cf_amount = v, cf_kind = ''starting balance'',
                       inflow_accounts = {}, outflow_accounts = {}, cf_entry = None\<rparr> # rest)))
       \<and> (\<forall>ev a w.
            get_market_values_by_asset_account lib entries (dict_of asset_account_map [])
              (map_option (\<lambda>e. e + 1) end_date_inclusive) (build_price_map lib entries) cur
              = Inr ev
          \<and> dict_get ev a = Some w
          \<longrightarrow> (\<exists>front. m a =
                Some (front @
                  [\<lparr>cf_date = end_date_inclusive, cf_amount = - w, cf_kind = ''ending balance'',
                    inflow_accounts = {}, outflow_accounts = {}, cf_entry = None\<rparr>])))
       \<and> (\<forall>s sv a cs.
            start_date_inclusive = Some s
          \<and> get_market_values_by_asset_account lib entries (dict_of asset_account_map [])
               (Some s) (build_price_map lib entries) cur = Inr sv
          \<and> dict_get sv a = None \<and> m a = Some cs
          \<longrightarrow> (\<forall>c \<in> set cs. cf_kind c \<noteq> ''starting balance''))
       \<and> (\<forall>ev a cs.
            get_market_values_by_asset_account lib entries (dict_of asset_account_map [])
              (map_option (\<lambda>e. e + 1) end_date_inclusive) (build_price_map lib entries) cur
              = Inr ev
          \<and> dict_get ev a = None \<and> m a = Some cs
          \<longrightarrow> (\<forall>c \<in> set cs. cf_kind c \<noteq> ''ending balance''))"
proof -
  let ?amap = "dict_of asset_account_map []"
  let ?pm = "build_price_map lib entries"
  from extraction_phases [OF assms] obtain m1 sv0 cutoff ev0 where
    m1: "extract_txn_cashflows lib ?amap start_date_inclusive end_date_inclusive cur ?pm
           (filter_txns entries) Map.empty = Inr m1" and
    sv0: "case start_date_inclusive of
           None \<Rightarrow> sv0 = []
         | Some s \<Rightarrow>
             get_market_values_by_asset_account lib entries ?amap (Some s) ?pm cur = Inr sv0" and
    cut: "ending_cutoff end_date_inclusive = Inr cutoff" and
    ev0: "get_market_values_by_asset_account lib entries ?amap cutoff ?pm cur = Inr ev0" and
    m: "\<forall>a. m a =
          (case dict_get ev0 a of
             None \<Rightarrow>
               (case dict_get sv0 a of
                  None \<Rightarrow> m1 a
                | Some v \<Rightarrow> Some (starting_balance (the start_date_inclusive) v # bucket m1 a))
           | Some w \<Rightarrow>
               Some ((case dict_get sv0 a of
                        None \<Rightarrow> []
                      | Some v \<Rightarrow> [starting_balance (the start_date_inclusive) v])
                     @ bucket m1 a @ [ending_balance end_date_inclusive (- w)]))"
    by blast
  have txn: "cf_kind c = ''txn''" if "c \<in> set (bucket m1 a)" for a c
  proof -
    from bucket_extract_txn_cashflows [OF m1, of a] obtain new where
      "bucket m1 a = bucket Map.empty a @ new" "\<forall>c \<in> set new. cf_kind c = ''txn''" by blast
    with that show ?thesis by (simp add: bucket_empty)
  qed
  have first: "\<exists>rest. m a =
                Some (\<lparr>cf_date = Some s, cf_amount = v, cf_kind = ''starting balance'',
                       inflow_accounts = {}, outflow_accounts = {}, cf_entry = None\<rparr> # rest)"
    if "start_date_inclusive = Some s"
       "get_market_values_by_asset_account lib entries ?amap (Some s) ?pm cur = Inr sv"
       "dict_get sv a = Some v" for s sv a v
  proof -
    from that(1,2) sv0 have "sv = sv0" by simp
    with that(1,3) m [rule_format, of a] show ?thesis
      by (cases "dict_get ev0 a") (simp_all add: starting_balance_def)
  qed
  have last: "\<exists>front. m a =
                Some (front @
                  [\<lparr>cf_date = end_date_inclusive, cf_amount = - w, cf_kind = ''ending balance'',
                    inflow_accounts = {}, outflow_accounts = {}, cf_entry = None\<rparr>])"
    if "get_market_values_by_asset_account lib entries ?amap
          (map_option (\<lambda>e. e + 1) end_date_inclusive) ?pm cur = Inr ev"
       "dict_get ev a = Some w" for ev a w
  proof -
    from that(1) ev0 ending_cutoff_Inr [OF cut] have "ev = ev0" by simp
    with that(2) m [rule_format, of a] show ?thesis by (simp add: ending_balance_def)
  qed
  have no_first: "\<forall>c \<in> set cs. cf_kind c \<noteq> ''starting balance''"
    if "start_date_inclusive = Some s"
       "get_market_values_by_asset_account lib entries ?amap (Some s) ?pm cur = Inr sv"
       "dict_get sv a = None" "m a = Some cs" for s sv a cs
  proof -
    from that(1,2) sv0 have "sv = sv0" by simp
    with that(3,4) m [rule_format, of a] have
      "set cs \<subseteq> set (bucket m1 a)
         \<union> (case dict_get ev0 a of
              None \<Rightarrow> {}
            | Some w \<Rightarrow> {ending_balance end_date_inclusive (- w)})"
      by (auto simp: bucket_def split: option.splits)
    then show ?thesis
      using txn [of _ a] by (auto simp: ending_balance_def split: option.splits)
  qed
  have no_last: "\<forall>c \<in> set cs. cf_kind c \<noteq> ''ending balance''"
    if "get_market_values_by_asset_account lib entries ?amap
          (map_option (\<lambda>e. e + 1) end_date_inclusive) ?pm cur = Inr ev"
       "dict_get ev a = None" "m a = Some cs" for ev a cs
  proof -
    from that(1) ev0 ending_cutoff_Inr [OF cut] have "ev = ev0" by simp
    with that(2,3) m [rule_format, of a] have
      "set cs \<subseteq> set (bucket m1 a)
         \<union> (case dict_get sv0 a of
              None \<Rightarrow> {}
            | Some v \<Rightarrow> {starting_balance (the start_date_inclusive) v})"
      by (auto simp: bucket_def split: option.splits)
    then show ?thesis
      using txn [of _ a] by (auto simp: starting_balance_def split: option.splits)
  qed
  from first last no_first no_last show ?thesis by blast
qed

theorem boundary_first_and_last_witness:
  "\<exists>m rest front.
      get_cashflows_by_asset_account plain_ledger cash_ledger cash_rules (Some 5) (Some 20)
        ''USD'' = Inr m
    \<and> m ''Assets:Cash'' =
        Some (\<lparr>cf_date = Some 5, cf_amount = - 50, cf_kind = ''starting balance'',
               inflow_accounts = {}, outflow_accounts = {}, cf_entry = None\<rparr> # rest)
    \<and> m ''Assets:Cash'' =
        Some (front @
          [\<lparr>cf_date = Some 20, cf_amount = 30, cf_kind = ''ending balance'',
            inflow_accounts = {}, outflow_accounts = {}, cf_entry = None\<rparr>])
    \<and> (\<exists>c. m ''Assets'' = Some [c]
          \<and> cf_kind c \<noteq> ''starting balance'' \<and> cf_kind c \<noteq> ''ending balance'')"
proof -
  let ?r = "get_cashflows_by_asset_account plain_ledger cash_ledger cash_rules (Some 5)
              (Some 20) ''USD''"
  have "\<not> isl ?r" by code_simp
  then have r: "?r = Inr (projr ?r)" by simp
  have sv: "get_market_values_by_asset_account plain_ledger cash_ledger (dict_of cash_rules [])
              (Some 5) (build_price_map plain_ledger cash_ledger) ''USD''
              = Inr [(''Assets:Cash'', - 50)]"
    by code_simp
  have ev: "get_market_values_by_asset_account plain_ledger cash_ledger (dict_of cash_rules [])
              (map_option (\<lambda>e. e + 1) (Some 20)) (build_price_map plain_ledger cash_ledger)
              ''USD'' = Inr [(''Assets:Cash'', - 30)]"
    by code_simp
  have "projr ?r ''Assets'' \<noteq> None" by code_simp
  then obtain cs where cs: "projr ?r ''Assets'' = Some cs" by blast
  have "length (the (projr ?r ''Assets'')) = 1" by code_simp
  with cs obtain c where c: "cs = [c]" by (cases cs) simp_all
  note inst = boundary_first_and_last [OF r]
  from inst sv
  have 1: "\<exists>rest. projr ?r ''Assets:Cash'' =
        Some (\<lparr>cf_date = Some 5, cf_amount = - 50, cf_kind = ''starting balance'',
               inflow_accounts = {}, outflow_accounts = {}, cf_entry = None\<rparr> # rest)"
    by (elim conjE allE [of _ 5] allE [of _ "[(''Assets:Cash'', - 50)]"]
             allE [of _ "''Assets:Cash''"] allE [of _ "- 50"]) simp
  from inst ev
  have 2: "\<exists>front. projr ?r ''Assets:Cash'' =
        Some (front @
          [\<lparr>cf_date = Some 20, cf_amount = 30, cf_kind = ''ending balance'',
            inflow_accounts = {}, outflow_accounts = {}, cf_entry = None\<rparr>])"
    by (elim conjE allE [of _ "[(''Assets:Cash'', - 30)]"]
             allE [of _ "''Assets:Cash''"] allE [of _ "- 30"]) simp
  from inst have "\<forall>s sv a cs.
            Some (5::date) = Some s
          \<and> get_market_values_by_asset_account plain_ledger cash_ledger (dict_of cash_rules [])
               (Some s) (build_price_map plain_ledger cash_ledger) ''USD'' = Inr sv
          \<and> dict_get sv a = None \<and> projr ?r a = Some cs
          \<longrightarrow> (\<forall>c \<in> set cs. cf_kind c \<noteq> ''starting balance'')"
    by (elim conjE)
  from this [rule_format, of 5 "[(''Assets:Cash'', - 50)]" "''Assets''" cs] sv cs
  have 3: "\<forall>c \<in> set cs. cf_kind c \<noteq> ''starting balance''" by simp
  from inst have "\<forall>ev a cs.
            get_market_values_by_asset_account plain_ledger cash_ledger (dict_of cash_rules [])
              (map_option (\<lambda>e. e + 1) (Some 20)) (build_price_map plain_ledger cash_ledger)
              ''USD'' = Inr ev
          \<and> dict_get ev a = None \<and> projr ?r a = Some cs
          \<longrightarrow> (\<forall>c \<in> set cs. cf_kind c \<noteq> ''ending balance'')"
    by (elim conjE)
  from this [rule_format, of "[(''Assets:Cash'', - 30)]" "''Assets''" cs] ev cs
  have 4: "\<forall>c \<in> set cs. cf_kind c \<noteq> ''ending balance''" by simp
  from 3 4 c cs have "\<exists>c. projr ?r ''Assets'' = Some [c]
          \<and> cf_kind c \<noteq> ''starting balance'' \<and> cf_kind c \<noteq> ''ending balance''" by simp
  with 1 2 r show ?thesis by blast
qed

text \<open>
  Claim C2 as stated fails on the example ledger with the window from day 5 to day 20.
  The bucket \<open>Assets\<close>, an ancestor of the cash bucket, holds one transaction cashflow
  and no boundary cashflow: its first element is not a starting balance and its last is
  not an ending balance. The starting balance of the cash bucket is the overdraft,
  \<open>-50\<close>.
\<close>

theorem boundary_first_and_last_counterexample:
  "map_option (map cf_kind)
     (returned_bucket
        (get_cashflows_by_asset_account plain_ledger cash_ledger cash_rules (Some 5) (Some 20)
           ''USD'') ''Assets'') = Some [''txn'']
   \<and> map_option (map cf_kind)
     (returned_bucket
        (get_cashflows_by_asset_account plain_ledger cash_ledger cash_rules (Some 5) (Some 20)
           ''USD'') ''Assets:Cash'') = Some [''starting balance'', ''txn'', ''ending balance'']
   \<and> map_option (map cf_amount)
     (returned_bucket
        (get_cashflows_by_asset_account plain_ledger cash_ledger cash_rules (Some 5) (Some 20)
           ''USD'') ''Assets:Cash'') = Some [- 50, 20, 30]"
  by code_simp

text \<open>
  Claim C3, evaluated where the code departs from it. The rule with pattern
  \<open>Assets:Cash\<close> is applied to the account \<open>Income:Assets:Cash\<close>, of which the
  pattern is no prefix: \<open>subn\<close> searches the whole name, finds the pattern at offset
  7, and \<open>get_asset_account\<close> returns the name with that occurrence replaced instead
  of nothing.
\<close>

theorem get_asset_account_matches_inside:
  "get_asset_account literal_subn ''Income:Assets:Cash'' [(''Assets:Cash'', ''Assets:Savings'')]
     = Some ''Income:Assets:Savings''
   \<and> \<not> prefix ''Assets:Cash'' ''Income:Assets:Cash''"
  by code_simp

text \<open>
  Claim C4, amended. Within one transaction, a posting whose account resolves to the
  asset account \<open>A\<close> and whose converted value is \<open>val\<close> updates the pending total of
  every bucket of \<open>parents A\<close>, which are \<open>A\<close> itself (for a non-empty name) and its
  ancestors, by one \<open>Decimal\<close> addition of \<open>val\<close>, rounded to 28 significant digits,
  and leaves every other pending total unchanged, provided that none of these additions
  overflows. A total whose sum with \<open>val\<close> fits in 28 digits increases by exactly
  \<open>val\<close>, so the contributions to two such buckets are equal.
\<close>

theorem posting_adds_to_every_ancestor:
  assumes res: "get_asset_account (re_subn lib) (account posting) amap = Some A"
    and num: "get_number (convert_amount lib (get_weight lib posting) cur pm (txn_date entry))
                cur = Inr val"
    and fits: "\<forall>a \<in> set (parents A). \<exists>t. decimal_add (pending_amount pending a) val = Inr t"
  shows "\<exists>pending'.
      process_posting lib amap cur pm entry posting pending = Inr pending'
    \<and> (\<forall>a \<in> set (parents A).
          decimal_add (pending_amount pending a) val = Inr (pending_amount pending' a))
    \<and> (\<forall>a. a \<notin> set (parents A) \<longrightarrow> pending_amount pending' a = pending_amount pending a)
    \<and> (\<forall>a \<in> set (parents A).
          representable (pending_amount pending a + val)
          \<longrightarrow> pending_amount pending' a - pending_amount pending a = val)
    \<and> (A \<noteq> [] \<longrightarrow> A \<in> set (parents A))"
proof -
  from add_to_parents_amounts [OF distinct_parents fits, of entry] obtain pending' where
    r: "add_to_parents entry val (parents A) pending = Inr pending'" and
    inside: "\<forall>a \<in> set (parents A).
               decimal_add (pending_amount pending a) val = Inr (pending_amount pending' a)" and
    outside: "\<forall>a. a \<notin> set (parents A) \<longrightarrow> pending_amount pending' a = pending_amount pending a"
    by blast
  have self: "A \<noteq> [] \<longrightarrow> A \<in> set (parents A)" by (simp add: self_in_parents)
  have exact: "\<forall>a \<in> set (parents A).
          representable (pending_amount pending a + val)
          \<longrightarrow> pending_amount pending' a - pending_amount pending a = val"
  proof (intro ballI impI)
    fix a assume a: "a \<in> set (parents A)"
      and rep: "representable (pending_amount pending a + val)"
    from context_fix_representable [OF rep] inside a
    have "pending_amount pending' a = pending_amount pending a + val"
      by (simp add: decimal_add_def)
    then show "pending_amount pending' a - pending_amount pending a = val" by simp
  qed
  from process_posting_resolved [OF res num, of pending] r inside outside exact self
  show ?thesis by simp
qed

theorem posting_adds_to_every_ancestor_witness:
  "\<exists>pending'.
      process_posting plain_ledger brokerage_rules ''USD'' () purchase
        \<lparr>account = ''Assets:Brokerage:BND'', units = usd 100\<rparr> [] = Inr pending'
    \<and> pending_amount pending' ''Assets:Brokerage:BND'' = 100
    \<and> pending_amount pending' ''Assets:Brokerage'' = 100
    \<and> pending_amount pending' ''Assets'' = 100
    \<and> pending_amount pending' ''Assets:Checking'' = 0"
proof -
  let ?p = "\<lparr>account = ''Assets:Brokerage:BND'', units = usd 100\<rparr>"
  have a: "get_asset_account (re_subn plain_ledger) (account ?p) brokerage_rules
             = Some ''Assets:Brokerage:BND''"
    by code_simp
  have v: "get_number (convert_amount plain_ledger (get_weight plain_ledger ?p) ''USD'' ()
             (txn_date purchase)) ''USD'' = Inr 100"
    by code_simp
  have ps: "parents ''Assets:Brokerage:BND''
              = [''Assets:Brokerage:BND'', ''Assets:Brokerage'', ''Assets'']"
    by code_simp
  have z: "pending_amount [] a = 0" for a by (simp add: pending_amount_def)
  have sum: "decimal_add 0 100 = Inr 100" by code_simp
  have fits: "\<forall>a \<in> set (parents ''Assets:Brokerage:BND'').
                \<exists>t. decimal_add (pending_amount [] a) 100 = Inr t"
    by (simp add: z sum)
  have "context_fix 100 = Inr 100" by code_simp
  then have rep: "representable (0 + 100)"
    using context_fix_result_representable [of 100 100] by simp
  from posting_adds_to_every_ancestor [OF a v fits] obtain pending' where
    r: "process_posting plain_ledger brokerage_rules ''USD'' () purchase ?p [] = Inr pending'" and
    inside: "\<forall>a \<in> set (parents ''Assets:Brokerage:BND'').
               decimal_add (pending_amount [] a) 100 = Inr (pending_amount pending' a)" and
    outside: "\<forall>a. a \<notin> set (parents ''Assets:Brokerage:BND'')
               \<longrightarrow> pending_amount pending' a = pending_amount [] a" and
    exact: "\<forall>a \<in> set (parents ''Assets:Brokerage:BND'').
              representable (pending_amount [] a + 100)
              \<longrightarrow> pending_amount pending' a - pending_amount [] a = 100"
    by blast
  from exact rep have "pending_amount pending' ''Assets:Brokerage:BND'' = 100"
    "pending_amount pending' ''Assets:Brokerage'' = 100"
    "pending_amount pending' ''Assets'' = 100"
    by (simp_all add: ps z)
  moreover from outside [rule_format, of "''Assets:Checking''"]
  have "pending_amount pending' ''Assets:Checking'' = 0"
    by (simp add: ps z)
  ultimately show ?thesis using r by blast
qed

text \<open>
  Claim C4 as stated fails in two ways. In the large deposit, the bucket of the
  brokerage account holds \<open>10 ^ 28\<close> after the first posting; the second posting
  resolves to the fund below it and adds one dollar to the fund's bucket and nothing
  to the bucket of the brokerage account, its ancestor, where the sum is rounded to 28
  digits. And a posting whose account resolves to the empty name has no bucket at all:
  \<open>parents\<close> of the empty name is empty and no pending total changes.
\<close>

theorem posting_adds_to_every_ancestor_counterexample:
  "get_asset_account (re_subn plain_ledger) ''Assets:Brokerage:BND'' brokerage_rules
     = Some ''Assets:Brokerage:BND''
   \<and> parents ''Assets:Brokerage:BND''
       = [''Assets:Brokerage:BND'', ''Assets:Brokerage'', ''Assets'']
   \<and> returned_pending_amount
       (process_postings plain_ledger brokerage_rules ''USD'' () large_deposit
          (take 1 (postings large_deposit)) []) ''Assets:Brokerage:BND'' = Some 0
   \<and> returned_pending_amount
       (process_postings plain_ledger brokerage_rules ''USD'' () large_deposit
          (take 2 (postings large_deposit)) []) ''Assets:Brokerage:BND'' = Some 1
   \<and> returned_pending_amount
       (process_postings plain_ledger brokerage_rules ''USD'' () large_deposit
          (take 1 (postings large_deposit)) []) ''Assets:Brokerage'' = Some (10 ^ 28)
   \<and> returned_pending_amount
       (process_postings plain_ledger brokerage_rules ''USD'' () large_deposit
          (take 2 (postings large_deposit)) []) ''Assets:Brokerage'' = Some (10 ^ 28)
   \<and> get_asset_account (re_subn plain_ledger) ''Assets:Cash'' closing_rules = Some ''''
   \<and> parents '''' = []
   \<and> process_posting plain_ledger closing_rules ''USD'' () purchase
       \<lparr>account = ''Assets:Cash'', units = usd 20\<rparr> [] = Inr []"
  by code_simp

text \<open>
  Claim C5, amended. For a transaction inside the date window all of whose postings
  resolve to the same asset account \<open>A\<close>, whose converted values are in the target
  currency and whose running \<open>Decimal\<close> total, added in posting order from zero with
  every sum rounded to 28 significant digits, is zero, the pending total of every
  bucket, that of \<open>A\<close> included, is exactly zero; it rounds to zero at two decimal
  places, no cashflow is emitted for the transaction, and the loop over the
  transactions goes on with the mapping unchanged.
\<close>

theorem internal_transfer_emits_nothing:
  assumes same: "\<forall>p \<in> set (postings entry).
                   get_asset_account (re_subn lib) (account p) amap = Some A"
    and conv: "\<forall>p \<in> set (postings entry).
                 currency (convert_amount lib (get_weight lib p) cur pm (txn_date entry)) = cur"
    and zero: "decimal_sum 0
                 (map (\<lambda>p. number (convert_amount lib (get_weight lib p) cur pm
                                     (txn_date entry))) (postings entry)) = Inr 0"
    and window: "(\<forall>s. start_date_inclusive = Some s \<longrightarrow> s \<le> txn_date entry)
               \<and> (\<forall>e. end_date_inclusive = Some e \<longrightarrow> txn_date entry \<le> e)"
  shows "\<exists>pending.
      process_postings lib amap cur pm entry (postings entry) [] = Inr pending
    \<and> pending_amount pending A = 0
    \<and> (\<forall>a. pending_amount pending a = 0)
    \<and> quantize (pending_amount pending A) = Inr 0
    \<and> emit_cashflows lib amap entry pending m = Inr m
    \<and> extract_txn_cashflows lib amap start_date_inclusive end_date_inclusive cur pm
        (entry # es) m
      = extract_txn_cashflows lib amap start_date_inclusive end_date_inclusive cur pm es m"
proof -
  have start: "\<forall>a \<in> set (parents A). pending_amount [] a = 0"
    by (simp add: pending_amount_def)
  from process_postings_same_bucket [OF same conv _ start zero] obtain pending where
    pp: "process_postings lib amap cur pm entry (postings entry) [] = Inr pending" and
    d: "distinct (map fst pending)" and
    amt: "\<forall>a. pending_amount pending a = 0"
    by (auto simp: pending_amount_def)
  have "\<forall>kc \<in> set pending. quantize (cf_amount (snd kc)) = Inr 0"
  proof
    fix kc assume kc: "kc \<in> set pending"
    obtain k c where [simp]: "kc = (k, c)" by (cases kc)
    from d kc have "map_of pending k = Some c" by simp
    then have "pending_amount pending k = cf_amount c"
      by (simp add: pending_amount_def dict_get_map_of)
    with amt show "quantize (cf_amount (snd kc)) = Inr 0" by (simp add: quantize_zero)
  qed
  then have emit: "emit_cashflows lib amap entry pending m = Inr m"
    by (rule emit_cashflows_all_zero)
  have "extract_txn_cashflows lib amap start_date_inclusive end_date_inclusive cur pm
          (entry # es) m
        = extract_txn_cashflows lib amap start_date_inclusive end_date_inclusive cur pm es m"
    using window pp emit by (auto split: option.splits)
  with pp amt emit show ?thesis by (simp add: quantize_zero)
qed

theorem internal_transfer_emits_nothing_witness:
  "\<exists>pending.
      process_postings plain_ledger brokerage_rules ''USD'' () dividend (postings dividend) []
        = Inr pending
    \<and> pending_amount pending ''Assets:Brokerage:BND'' = 0
    \<and> emit_cashflows plain_ledger brokerage_rules dividend pending Map.empty = Inr Map.empty
    \<and> extract_txn_cashflows plain_ledger brokerage_rules (Some 1) (Some 31) ''USD'' ()
        [dividend] Map.empty = Inr Map.empty"
proof -
  have same: "\<forall>p \<in> set (postings dividend).
                get_asset_account (re_subn plain_ledger) (account p) brokerage_rules
                  = Some ''Assets:Brokerage:BND''"
    by code_simp
  have conv: "\<forall>p \<in> set (postings dividend).
                currency (convert_amount plain_ledger (get_weight plain_ledger p) ''USD'' ()
                  (txn_date dividend)) = ''USD''"
    by code_simp
  have zero: "decimal_sum 0
                (map (\<lambda>p. number (convert_amount plain_ledger (get_weight plain_ledger p)
                                    ''USD'' () (txn_date dividend))) (postings dividend))
                = Inr 0"
    by code_simp
  have window: "(\<forall>s. Some (1::date) = Some s \<longrightarrow> s \<le> txn_date dividend)
              \<and> (\<forall>e. Some (31::date) = Some e \<longrightarrow> txn_date dividend \<le> e)"
    by (simp add: dividend_def)
  from internal_transfer_emits_nothing [OF same conv zero window, of Map.empty "[]"]
  show ?thesis by auto
qed

text \<open>
  Claim C5 as stated fails when the exact sum is zero and the running total is not.
  The three postings of the rounded transfer resolve to the fund's bucket and their
  values sum to zero; the cent of the second posting is lost when it is added to
  \<open>10 ^ 26\<close>, the pending total of the bucket is \<open>-0.01\<close>, and a cashflow of kind
  \<open>txn\<close> with this amount is emitted.
\<close>

theorem internal_transfer_emits_nothing_counterexample:
  "map (\<lambda>p. get_asset_account (re_subn plain_ledger) (account p) brokerage_rules)
     (postings rounded_transfer)
     = [Some ''Assets:Brokerage:BND'', Some ''Assets:Brokerage:BND'',
        Some ''Assets:Brokerage:BND'']
   \<and> (\<Sum>p\<leftarrow>postings rounded_transfer.
        number (convert_amount plain_ledger (get_weight plain_ledger p) ''USD'' ()
                  (txn_date rounded_transfer))) = 0
   \<and> returned_pending_amount
       (process_postings plain_ledger brokerage_rules ''USD'' () rounded_transfer
          (postings rounded_transfer) []) ''Assets:Brokerage:BND'' = Some (- 1 / 100)
   \<and> map_option (map cf_amount)
       (returned_bucket
          (extract_txn_cashflows plain_ledger brokerage_rules (Some 1) (Some 31) ''USD'' ()
             [rounded_transfer] Map.empty) ''Assets:Brokerage:BND'') = Some [- 1 / 100]
   \<and> map_option (map cf_kind)
       (returned_bucket
          (extract_txn_cashflows plain_ledger brokerage_rules (Some 1) (Some 31) ''USD'' ()
             [rounded_transfer] Map.empty) ''Assets:Brokerage:BND'') = Some [''txn'']"
  by code_simp

text \<open>
  Claim C6, amended. For every bucket of the mapping returned when both window bounds
  are supplied with the start not after the end, and the entries are in non-decreasing
  date order, the dates of the bucket's cashflows are non-decreasing, every
  starting-balance element is dated at the window start and every ending-balance
  element at the window end.
\<close>

theorem cashflow_dates_sorted:
  assumes result: "get_cashflows_by_asset_account lib entries asset_account_map (Some s) (Some e)
                     cur = Inr m"
    and chron: "sorted (map entry_date entries)"
    and window: "s \<le> e"
    and bucket: "m a = Some cs"
  shows "\<exists>ds. map cf_date cs = map Some ds \<and> sorted ds
           \<and> (\<forall>c \<in> set cs. cf_kind c = ''starting balance'' \<longrightarrow> cf_date c = Some s)
           \<and> (\<forall>c \<in> set cs. cf_kind c = ''ending balance'' \<longrightarrow> cf_date c = Some e)"
proof -
  let ?amap = "dict_of asset_account_map []"
  let ?pm = "build_price_map lib entries"
  from extraction_phases [OF result] obtain m1 sv ev where
    m1: "extract_txn_cashflows lib ?amap (Some s) (Some e) cur ?pm (filter_txns entries)
           Map.empty = Inr m1" and
    m: "\<forall>a. m a =
          (case dict_get ev a of
             None \<Rightarrow>
               (case dict_get sv a of
                  None \<Rightarrow> m1 a
                | Some v \<Rightarrow> Some (starting_balance (the (Some s)) v # bucket m1 a))
           | Some w \<Rightarrow>
               Some ((case dict_get sv a of
                        None \<Rightarrow> []
                      | Some v \<Rightarrow> [starting_balance (the (Some s)) v])
                     @ bucket m1 a @ [ending_balance (Some e) (- w)]))"
    by blast
  from bucket_extract_txn_cashflows [OF m1, of a] obtain new ds where
    new: "bucket m1 a = new" "map cf_date new = map Some ds"
         "\<forall>c \<in> set new. cf_kind c = ''txn''"
         "\<forall>d \<in> set ds. s \<le> d \<and> d \<le> e"
         "sorted (map txn_date (filter_txns entries)) \<longrightarrow> sorted ds"
    by (auto simp: bucket_empty)
  from chron new(5) have sorted: "sorted ds" by (simp add: sorted_filter_txns)
  let ?S = "case dict_get sv a of None \<Rightarrow> [] | Some v \<Rightarrow> [starting_balance s v]"
  let ?E = "case dict_get ev a of None \<Rightarrow> [] | Some w \<Rightarrow> [ending_balance (Some e) (- w)]"
  let ?sd = "case dict_get sv a of None \<Rightarrow> [] | Some v \<Rightarrow> [s]"
  let ?ed = "case dict_get ev a of None \<Rightarrow> [] | Some w \<Rightarrow> [e]"
  have cs: "cs = ?S @ new @ ?E"
    using m [rule_format, of a] bucket new(1)
    by (auto simp: bucket_def split: option.splits)
  have dates: "map cf_date cs = map Some (?sd @ ds @ ?ed)"
    using new(2) by (simp add: cs starting_balance_def ending_balance_def split: option.splits)
  have srt: "sorted (?sd @ ds @ ?ed)"
    using sorted new(4) window by (auto simp: sorted_append split: option.splits)
  have sb: "\<forall>c \<in> set cs. cf_kind c = ''starting balance'' \<longrightarrow> cf_date c = Some s"
    using new(3) by (auto simp: cs starting_balance_def ending_balance_def split: option.splits)
  have eb: "\<forall>c \<in> set cs. cf_kind c = ''ending balance'' \<longrightarrow> cf_date c = Some e"
    using new(3) by (auto simp: cs starting_balance_def ending_balance_def split: option.splits)
  from dates srt sb eb show ?thesis by blast
qed

theorem cashflow_dates_sorted_witness:
  "\<exists>m cs ds.
      get_cashflows_by_asset_account plain_ledger cash_ledger cash_rules (Some 5) (Some 20)
        ''USD'' = Inr m
    \<and> m ''Assets:Cash'' = Some cs \<and> map cf_date cs = map Some ds \<and> sorted ds"
proof -
  let ?r = "get_cashflows_by_asset_account plain_ledger cash_ledger cash_rules (Some 5)
              (Some 20) ''USD''"
  have "\<not> isl ?r" by code_simp
  then have r: "?r = Inr (projr ?r)" by simp
  have "projr ?r ''Assets:Cash'' \<noteq> None" by code_simp
  then obtain cs where cs: "projr ?r ''Assets:Cash'' = Some cs" by blast
  have chron: "sorted (map entry_date cash_ledger)" by code_simp
  from cashflow_dates_sorted [OF r chron _ cs] obtain ds where
    "map cf_date cs = map Some ds" "sorted ds" by auto
  with r cs show ?thesis by blast
qed

text \<open>
  Claim C6 as stated fails when the bounds are supplied in the wrong order: with the
  start on day 20 and the end on day 5 the cash bucket holds the starting balance dated
  20 followed by the ending balance dated 5.
\<close>

theorem cashflow_dates_sorted_counterexample:
  "map_option (map cf_date)
     (returned_bucket
        (get_cashflows_by_asset_account plain_ledger cash_ledger cash_rules (Some 20) (Some 5)
           ''USD'') ''Assets:Cash'') = Some [Some 20, Some 5]
   \<and> sorted (map entry_date cash_ledger)
   \<and> \<not> sorted [20 :: date, 5]"
  by code_simp



text \<open>
  Claim C9. \<open>get_cashflows\<close> indexes the mapping returned for the placeholder rules
  by the placeholder key without a test. Whenever that mapping has no bucket for the
  placeholder asset account, \<open>get_cashflows\<close> raises \<open>KeyError\<close>. This is the case
  when the extraction returns, no posting of a transaction in the window has an account
  that a rule resolves, and the market values at the starting and at the ending cutoff
  have no entry for the placeholder. And \<open>get_cashflows\<close> never returns an empty
  list.
\<close>

theorem get_cashflows_KeyError:
  "(\<forall>m. get_cashflows_by_asset_account lib entries
           (dict_of (map (\<lambda>pattern. (pattern, placeholder_asset_account))
                       (interesting_accounts @ internal_accounts)) [])
           date_from (Some date_to) cur = Inr m
        \<and> m placeholder_asset_account = None
        \<longrightarrow> get_cashflows lib entries interesting_accounts internal_accounts date_from date_to cur
              = Inl KeyError)
   \<and> (\<forall>m. get_cashflows_by_asset_account lib entries
           (dict_of (map (\<lambda>pattern. (pattern, placeholder_asset_account))
                       (interesting_accounts @ internal_accounts)) [])
           date_from (Some date_to) cur = Inr m
        \<and> (\<forall>t \<in> set (filter_txns entries).
              (\<forall>s. date_from = Some s \<longrightarrow> s \<le> txn_date t) \<and> txn_date t \<le> date_to
              \<longrightarrow> (\<forall>p \<in> set (postings t).
                    get_asset_account (re_subn lib) (account p)
                      (dict_of (map (\<lambda>pattern. (pattern, placeholder_asset_account))
                                  (interesting_accounts @ internal_accounts)) []) = None))
        \<and> (\<forall>s sv. date_from = Some s
              \<and> get_market_values_by_asset_account lib entries
                  (dict_of (map (\<lambda>pattern. (pattern, placeholder_asset_account))
                              (interesting_accounts @ internal_accounts)) [])
                  (Some s) (build_price_map lib entries) cur = Inr sv
              \<longrightarrow> dict_get sv placeholder_asset_account = None)
        \<and> (\<forall>ev. get_market_values_by_asset_account lib entries
                  (dict_of (map (\<lambda>pattern. (pattern, placeholder_asset_account))
                              (interesting_accounts @ internal_accounts)) [])
                  (Some (date_to + 1)) (build_price_map lib entries) cur = Inr ev
              \<longrightarrow> dict_get ev placeholder_asset_account = None)
        \<longrightarrow> get_cashflows lib entries interesting_accounts internal_accounts date_from date_to cur
              = Inl KeyError)
   \<and> get_cashflows lib entries interesting_accounts internal_accounts date_from date_to cur
       \<noteq> Inr []"
proof (intro conjI allI impI)
  fix m
  assume "get_cashflows_by_asset_account lib entries
           (dict_of (map (\<lambda>pattern. (pattern, placeholder_asset_account))
                       (interesting_accounts @ internal_accounts)) [])
           date_from (Some date_to) cur = Inr m
        \<and> m placeholder_asset_account = None"
  then show "get_cashflows lib entries interesting_accounts internal_accounts date_from date_to cur
              = Inl KeyError"
    by (simp add: get_cashflows_def)
next
  let ?rules = "dict_of (map (\<lambda>pattern. (pattern, placeholder_asset_account))
                       (interesting_accounts @ internal_accounts)) []"
  let ?pm = "build_price_map lib entries"
  fix m
  assume h: "get_cashflows_by_asset_account lib entries ?rules date_from (Some date_to) cur = Inr m
        \<and> (\<forall>t \<in> set (filter_txns entries).
              (\<forall>s. date_from = Some s \<longrightarrow> s \<le> txn_date t) \<and> txn_date t \<le> date_to
              \<longrightarrow> (\<forall>p \<in> set (postings t).
                    get_asset_account (re_subn lib) (account p) ?rules = None))
        \<and> (\<forall>s sv. date_from = Some s
              \<and> get_market_values_by_asset_account lib entries ?rules (Some s) ?pm cur = Inr sv
              \<longrightarrow> dict_get sv placeholder_asset_account = None)
        \<and> (\<forall>ev. get_market_values_by_asset_account lib entries ?rules (Some (date_to + 1)) ?pm cur
                  = Inr ev
              \<longrightarrow> dict_get ev placeholder_asset_account = None)"
  then have r: "get_cashflows_by_asset_account lib entries ?rules date_from (Some date_to) cur
                  = Inr m" by blast
  have idem: "dict_of ?rules [] = ?rules" by (rule dict_of_idem)
  from extraction_phases [OF r] obtain m1 sv cutoff ev where
    m1: "extract_txn_cashflows lib ?rules date_from (Some date_to) cur ?pm
           (filter_txns entries) Map.empty = Inr m1" and
    sv: "case date_from of
           None \<Rightarrow> sv = []
         | Some s \<Rightarrow> get_market_values_by_asset_account lib entries ?rules (Some s) ?pm cur = Inr sv"
    and cut: "ending_cutoff (Some date_to) = Inr cutoff"
    and ev: "get_market_values_by_asset_account lib entries ?rules cutoff ?pm cur = Inr ev"
    and m: "\<forall>a. m a =
          (case dict_get ev a of
             None \<Rightarrow>
               (case dict_get sv a of
                  None \<Rightarrow> m1 a
                | Some v \<Rightarrow> Some (starting_balance (the date_from) v # bucket m1 a))
           | Some w \<Rightarrow>
               Some ((case dict_get sv a of
                        None \<Rightarrow> []
                      | Some v \<Rightarrow> [starting_balance (the date_from) v])
                     @ bucket m1 a @ [ending_balance (Some date_to) (- w)]))"
    unfolding idem by blast
  have "m1 = Map.empty"
    by (rule extract_unresolved [OF _ m1]) (use h in auto)
  moreover have "dict_get sv placeholder_asset_account = None"
    using sv h by (cases date_from) auto
  moreover have "dict_get ev placeholder_asset_account = None"
    using ev ending_cutoff_Inr [OF cut] h by simp
  ultimately have "m placeholder_asset_account = None"
    using m [rule_format, of placeholder_asset_account] by simp
  with r show "get_cashflows lib entries interesting_accounts internal_accounts date_from date_to
                 cur = Inl KeyError"
    by (simp add: get_cashflows_def)
next
  let ?rules = "dict_of (map (\<lambda>pattern. (pattern, placeholder_asset_account))
                       (interesting_accounts @ internal_accounts)) []"
  show "get_cashflows lib entries interesting_accounts internal_accounts date_from date_to cur
          \<noteq> Inr []"
  proof
    assume "get_cashflows lib entries interesting_accounts internal_accounts date_from date_to cur
              = Inr []"
    then obtain m where
      r: "get_cashflows_by_asset_account lib entries ?rules date_from (Some date_to) cur = Inr m"
      and e: "m placeholder_asset_account = Some []"
      by (auto simp: get_cashflows_def Let_def split: sum.splits option.splits)
    from extraction_phases [OF r] obtain m1 sv ev where
      m1: "extract_txn_cashflows lib (dict_of ?rules []) date_from (Some date_to) cur
             (build_price_map lib entries) (filter_txns entries) Map.empty = Inr m1" and
      m: "\<forall>a. m a =
          (case dict_get ev a of
             None \<Rightarrow>
               (case dict_get sv a of
                  None \<Rightarrow> m1 a
                | Some v \<Rightarrow> Some (starting_balance (the date_from) v # bucket m1 a))
           | Some w \<Rightarrow>
               Some ((case dict_get sv a of
                        None \<Rightarrow> []
                      | Some v \<Rightarrow> [starting_balance (the date_from) v])
                     @ bucket m1 a @ [ending_balance (Some date_to) (- w)]))"
      by blast
    have "\<forall>a. m1 a \<noteq> Some []"
      by (rule extract_no_empty_bucket [OF m1]) simp
    with m [rule_format, of placeholder_asset_account] e show False
      by (auto split: option.splits)
  qed
qed

theorem get_cashflows_KeyError_witness:
  "get_cashflows plain_ledger cash_ledger [''Liabilities''] [] (Some 5) 20 ''USD''
     = Inl KeyError
   \<and> (\<exists>m. get_cashflows_by_asset_account plain_ledger cash_ledger
             (dict_of (map (\<lambda>pattern. (pattern, placeholder_asset_account))
                         ([''Liabilities''] @ [])) [])
             (Some 5) (Some 20) ''USD'' = Inr m
          \<and> m placeholder_asset_account = None)"
proof -
  let ?rules = "dict_of (map (\<lambda>pattern. (pattern, placeholder_asset_account))
                          ([''Liabilities''] @ [])) []"
  let ?r = "get_cashflows_by_asset_account plain_ledger cash_ledger ?rules
              (Some 5) (Some 20) ''USD''"
  have "\<not> isl ?r" by code_simp
  then have r: "?r = Inr (projr ?r)" by simp
  have none: "projr ?r placeholder_asset_account = None" by code_simp
  have unresolved: "\<forall>t \<in> set (filter_txns cash_ledger).
      (\<forall>s. Some (5 :: date) = Some s \<longrightarrow> s \<le> txn_date t) \<and> txn_date t \<le> 20
      \<longrightarrow> (\<forall>p \<in> set (postings t).
            get_asset_account (re_subn plain_ledger) (account p) ?rules = None)"
  proof -
    have "\<forall>t \<in> set (filter_txns cash_ledger). \<forall>p \<in> set (postings t).
            get_asset_account (re_subn plain_ledger) (account p) ?rules = None"
      by code_simp
    then show ?thesis by blast
  qed
  have sv: "get_market_values_by_asset_account plain_ledger cash_ledger ?rules (Some 5)
              (build_price_map plain_ledger cash_ledger) ''USD'' = Inr []"
    by code_simp
  have ev: "get_market_values_by_asset_account plain_ledger cash_ledger ?rules (Some (20 + 1))
              (build_price_map plain_ledger cash_ledger) ''USD'' = Inr []"
    by code_simp
  note inst = get_cashflows_KeyError [of plain_ledger cash_ledger "[''Liabilities'']" "[]"
               "Some 5" 20 "''USD''"]
  from inst r none
  have 1: "get_cashflows plain_ledger cash_ledger [''Liabilities''] [] (Some 5) 20 ''USD''
             = Inl KeyError" by blast
  have 2: "get_cashflows plain_ledger cash_ledger [''Liabilities''] [] (Some 5) 20 ''USD''
             = Inl KeyError"
  proof (rule inst [THEN conjunct2, THEN conjunct1, rule_format, of "projr ?r"], intro conjI)
    show "?r = Inr (projr ?r)" by (rule r)
    show "\<forall>t \<in> set (filter_txns cash_ledger).
      (\<forall>s. Some (5 :: date) = Some s \<longrightarrow> s \<le> txn_date t) \<and> txn_date t \<le> 20
      \<longrightarrow> (\<forall>p \<in> set (postings t).
            get_asset_account (re_subn plain_ledger) (account p) ?rules = None)"
      by (rule unresolved)
    show "\<forall>s sv. Some (5 :: date) = Some s
              \<and> get_market_values_by_asset_account plain_ledger cash_ledger ?rules
                  (Some s) (build_price_map plain_ledger cash_ledger) ''USD'' = Inr sv
              \<longrightarrow> dict_get sv placeholder_asset_account = None"
      using sv by auto
    show "\<forall>ev. get_market_values_by_asset_account plain_ledger cash_ledger ?rules
                  (Some (20 + 1)) (build_price_map plain_ledger cash_ledger) ''USD'' = Inr ev
              \<longrightarrow> dict_get ev placeholder_asset_account = None"
      using ev by auto
  qed
  from 1 2 r none show ?thesis by blast
qed

text \<open>
  Claim C10. For every amount whose currency differs from the requested one,
  \<open>get_number\<close> raises \<open>NameError\<close> (the message of the intended \<open>AssertionError\<close>
  reads \<open>converted\<close>, which is not bound in its scope); for every amount in the
  requested currency it returns the amount's number unchanged.
\<close>

theorem get_number_NameError_or_number:
  "get_number amount cur =
     (if currency amount \<noteq> cur then Inl NameError else Inr (number amount))"
  by (simp add: get_number_def get_number_locals_def module_globals_def)

theorem get_number_NameError_or_number_witness:
  "get_number \<lparr>number = 5, currency = ''EUR''\<rparr> ''USD'' = Inl NameError
   \<and> get_number \<lparr>number = 5, currency = ''USD''\<rparr> ''USD'' = Inr 5"
  using get_number_NameError_or_number [of "\<lparr>number = 5, currency = ''EUR''\<rparr>" "''USD''"]
        get_number_NameError_or_number [of "\<lparr>number = 5, currency = ''USD''\<rparr>" "''USD''"]
  by simp

end
